theory Spec2Isabelle
  imports Complex_Main
begin

section \<open>Overview\<close>

text \<open>
  A model of bot.js, the Telegram front end of the wallet provisioning bot: the
  registration handshake, the topic selector, the conversation runner, the quota gate
  and the unit loop of \<open>processUserRequest\<close>, and the handlers that collect a request and
  let the admin cancel one. Line numbers refer to src/bot.js.

  The code is asynchronous and talks to a remote API, a clock and a random source.
  Every outcome that the environment decides is an argument of the model: the result
  of each awaited call, each random draw, the calendar day, and the admin's
  cancellations that happen while a request is suspended. Mutation of a wallet or of
  the module-level variables is explicit state passing. An exception is a value, so
  that what a \<open>try\<close> block catches is visible in the definitions.
\<close>

section \<open>JavaScript values and identities\<close>

text \<open>
  The fields that the code tests for truthiness or compares with \<open>===\<close> (the session
  token, the status code of a response body) hold arbitrary JSON values. Numbers are
  integers here; \<open>JObject\<close> stands for any object or array.
\<close>

datatype jsval = JUndefined | JNull | JBool bool | JNum int | JStr string | JObject

fun truthy :: "jsval \<Rightarrow> bool" where
  "truthy JUndefined = False"
| "truthy JNull = False"
| "truthy (JBool b) = b"
| "truthy (JNum n) = (n \<noteq> 0)"
| "truthy (JStr s) = (s \<noteq> [])"
| "truthy JObject = True"

text \<open>The object returned by \<open>createWallet\<close> (bot.js, lines 125-137).\<close>

record wallet =
  address :: string
  privateKey :: string
  mnemonic :: string
  registered :: bool
  chats :: int
  jwt :: jsval
  topics :: "string list"
  usedTopics :: "string list"

text \<open>
  \<open>ethers.Wallet.createRandom()\<close> is the environment's choice of an address, a private
  key and a mnemonic phrase; the remaining fields are the literals of the source.
\<close>

definition createWallet :: "string \<times> string \<times> string \<Rightarrow> wallet" where
  "createWallet k = (case k of (a, pk, ph) \<Rightarrow>
     \<lparr>address = a, privateKey = pk, mnemonic = ph, registered = False, chats = 0,
      jwt = JNull, topics = [], usedTopics = []\<rparr>)"

section \<open>The environment of an awaited call\<close>

text \<open>
  An awaited promise either rejects (the \<open>await\<close> throws) or resolves with a value.
  The remote API and the signer are the environment: their outcomes are inputs of the
  model, one per call of the source.
\<close>

datatype 'a outcome = Rejected | Resolved 'a

datatype exn = TransportError | SigningError | AuthenticationError | TypeError

text \<open>
  The body of the response to \<open>/user/evm_connect\<close>, as far as line 160 reads it:
  \<open>NoBody\<close> is a response whose \<open>data\<close> is null or undefined (reading \<open>.data\<close> of it
  throws a TypeError), \<open>NoData\<close> a body whose \<open>data\<close> field is falsy, \<open>Data tok\<close> a body
  whose \<open>data\<close> object has the \<open>token\<close> field \<open>tok\<close> (\<open>JUndefined\<close> when absent).
  Likewise \<open>Info code\<close> is a profile body with the field \<open>code\<close>.
\<close>

datatype connect_body = NoBody | NoData | Data jsval

datatype info_body = NoInfo | Info jsval

record reg_env =
  r_lookup :: "unit outcome"
  r_sign :: "string outcome"
  r_connect :: "connect_body outcome"
  r_bind :: "unit outcome"
  r_requery :: "info_body outcome"

text \<open>What the code writes with \<open>console.log\<close> and \<open>console.error\<close>.\<close>

datatype log_entry =
    Registering string
  | RegisterOk string
  | RegisterFailed string
  | RegisterError string exn
  | StartingChats string
  | NoJwt string
  | ChatTopic string nat string
  | ChatDone string nat
  | ChatError string
  | ChatStopped string
  | ChatsCompleted string int
  | RequestError

section \<open>Registration Client\<close>

text \<open>
  The \<open>try\<close> block of \<open>registerWallet\<close> (lines 148-177): the wallet as mutated so far,
  the lines logged, and either the exception thrown or the value returned.
\<close>

definition registerWallet_try ::
  "wallet \<Rightarrow> string \<Rightarrow> reg_env \<Rightarrow> wallet \<times> log_entry list \<times> (exn + bool)" where
  "registerWallet_try w referralCode env =
    (let lg = [Registering (address w)] in
     case r_lookup env of
       Rejected \<Rightarrow> (w, lg, Inl TransportError)
     | Resolved _ \<Rightarrow>
    (case r_sign env of
       Rejected \<Rightarrow> (w, lg, Inl SigningError)
     | Resolved signature \<Rightarrow>
    (case r_connect env of
       Rejected \<Rightarrow> (w, lg, Inl TransportError)
     | Resolved NoBody \<Rightarrow> (w, lg, Inl TypeError)
     | Resolved NoData \<Rightarrow> (w, lg, Inl AuthenticationError)
     | Resolved (Data tok) \<Rightarrow>
         if \<not> truthy tok then (w, lg, Inl AuthenticationError)
         else
           (let w1 = w\<lparr>jwt := tok\<rparr> in
            case r_bind env of
              Rejected \<Rightarrow> (w1, lg, Inl TransportError)
            | Resolved _ \<Rightarrow>
           (case r_requery env of
              Rejected \<Rightarrow> (w1, lg, Inl TransportError)
            | Resolved NoInfo \<Rightarrow> (w1, lg, Inl TypeError)
            | Resolved (Info code) \<Rightarrow>
                if code = JNum 200
                then (w1\<lparr>registered := True\<rparr>, lg @ [RegisterOk (address w1)], Inr True)
                else (w1, lg @ [RegisterFailed (address w1)], Inr False))))))"

text \<open>
  \<open>registerWallet\<close> (lines 146-182): the \<open>catch\<close> clause logs the error and returns
  \<open>false\<close>. The result keeps the type of the \<open>try\<close> block, so that an exception leaving
  the function would be a value \<open>Inl e\<close>.
\<close>

definition registerWallet ::
  "wallet \<Rightarrow> string \<Rightarrow> reg_env \<Rightarrow> wallet \<times> log_entry list \<times> (exn + bool)" where
  "registerWallet w referralCode env =
    (case registerWallet_try w referralCode env of
       (w', lg, Inl e) \<Rightarrow> (w', lg @ [RegisterError (address w') e], Inr False)
     | (w', lg, Inr b) \<Rightarrow> (w', lg, Inr b))"

section \<open>Topic Selector\<close>

text \<open>
  A random draw. \<open>Math.random()\<close> returns a double \<open>u\<close> with \<open>0 \<le> u < 1\<close>, and the code uses
  it only as \<open>Math.floor(Math.random() * n)\<close> for a length \<open>n\<close>. The product is rounded
  to a double before it is floored, so the index is not the floor of the exact
  product; the model does not compute it. A draw is given by the index it yields for
  each length: \<open>p n\<close> is the value of \<open>Math.floor(u * n)\<close>. For every double \<open>u\<close> in the
  unit interval and every length \<open>0 < n\<close> below \<open>2 ^ 53\<close> the rounded product is below
  \<open>n\<close>, so the index is: this is \<open>valid_draw\<close>, the only fact about draws that the
  results use.
\<close>

type_synonym draw = "nat \<Rightarrow> nat"


text \<open>
  \<open>getRandomTopic\<close> (lines 184-195): the wallet as mutated and the topic returned.
  The branch that finds every topic used assigns a fresh empty \<open>usedTopics\<close> and does
  not push the topic it returns.
\<close>

definition getRandomTopic :: "wallet \<Rightarrow> draw \<Rightarrow> wallet \<times> string" where
  "getRandomTopic w p =
    (if topics w = [] then (w, ''Default topic'')
     else
       (let available = filter (\<lambda>t. t \<notin> set (usedTopics w)) (topics w) in
        if available = []
        then (w\<lparr>usedTopics := []\<rparr>, topics w ! p (length (topics w)))
        else
          (let randomIndex = p (length available);
               topic = available ! randomIndex
           in (w\<lparr>usedTopics := usedTopics w @ [topic]\<rparr>, topic))))"


section \<open>Conversation Runner\<close>

text \<open>
  The environment of one turn: the draw of the topic selector and the outcome of the
  POST to the conversation endpoint, a rejection or a response with its HTTP status.
\<close>

record turn_env =
  t_draw :: draw
  t_post :: "int outcome"

text \<open>
  \<open>performChat\<close> (lines 197-228): the whole body is inside \<open>try\<close>, and the \<open>catch\<close>
  clause returns \<open>false\<close>. The settle delay has no effect on the state.
\<close>

definition performChat :: "wallet \<Rightarrow> nat \<Rightarrow> turn_env \<Rightarrow> wallet \<times> log_entry list \<times> bool" where
  "performChat w chatIndex env =
    (if \<not> truthy (jwt w) then (w, [NoJwt (address w)], False)
     else
       (case getRandomTopic w (t_draw env) of (w1, topic) \<Rightarrow>
         (let lg = [ChatTopic (address w1) (chatIndex + 1) topic] in
          case t_post env of
            Rejected \<Rightarrow> (w1, lg @ [ChatError (address w1)], False)
          | Resolved status \<Rightarrow>
              if status = 200
              then (w1\<lparr>chats := chats w1 + 1\<rparr>, lg @ [ChatDone (address w1) (chatIndex + 1)], True)
              else (w1, lg, False))))"

text \<open>
  The loop of \<open>completeDailyChats\<close> (lines 232-239), from the turn \<open>i\<close> on: \<open>break\<close> at
  the first turn that fails.
\<close>

function chat_turns :: "nat \<Rightarrow> wallet \<Rightarrow> (nat \<Rightarrow> turn_env) \<Rightarrow> wallet \<times> log_entry list" where
  "chat_turns i w env =
    (if i < 5 then
       (case performChat w i (env i) of (w1, lg, success) \<Rightarrow>
          if \<not> success then (w1, lg @ [ChatStopped (address w1)])
          else (case chat_turns (i + 1) w1 env of (w2, lg2) \<Rightarrow> (w2, lg @ lg2)))
     else (w, []))"
  by pat_completeness auto
termination
  by (relation "measure (\<lambda>(i, w, env). 5 - i)") auto

declare chat_turns.simps [simp del]

definition completeDailyChats :: "wallet \<Rightarrow> (nat \<Rightarrow> turn_env) \<Rightarrow> wallet \<times> log_entry list" where
  "completeDailyChats w env =
    (case chat_turns 0 w env of (w1, lg) \<Rightarrow>
       (w1, [StartingChats (address w)] @ lg @ [ChatsCompleted (address w1) (chats w1)]))"

section \<open>State of the bot\<close>

type_synonym chat_id = int

text \<open>One entry of \<open>usageData\<close>: \<open>{ date: 'YYYY-MM-DD', count: number }\<close>.\<close>

record usage =
  u_date :: string
  u_count :: int

text \<open>
  The file \<open>wallet_<chatId>.json\<close>: absent, present with a content that \<open>JSON.parse\<close>
  rejects, or present with an array of wallets, as the bot writes it. A file that holds
  JSON other than an array is not considered.
\<close>

datatype wallet_file = Missing | Unparsable | Stored "wallet list"

definition stored_wallets :: "wallet_file \<Rightarrow> wallet list" where
  "stored_wallets f = (case f of Stored ws \<Rightarrow> ws | _ \<Rightarrow> [])"

datatype admin_stage =
  Idle | Block | Unblock | Cancel | ChangeWelcome | SetSuffix | ChangeMaxLimit
  | SetGlobalCaption | Broadcast

text \<open>
  An entry of \<open>userState\<close>. The handler creates it as \<open>{ stage: 'awaiting_count' }\<close> and
  adds \<open>count\<close> and \<open>referralCode\<close> as it moves the stage on, so the fields present are
  fixed by the stage.
\<close>

datatype session = AwaitingCount | AwaitingRef int | AwaitingTopics int string

text \<open>The arguments of one call of \<open>processUserRequest\<close>.\<close>

record job =
  job_actor :: chat_id
  job_count :: int
  job_referral :: string
  job_topics :: "string list"

text \<open>
  The texts handed to \<open>bot.sendMessage\<close> and \<open>bot.sendDocument\<close>, one constructor per
  template of the source, with the values interpolated into it. \<open>WithLines m ls\<close> is
  \<open>m\<close> followed by the lines \<open>ls\<close> (the global caption and the suffix).
\<close>

datatype message =
    YouAreBlocked
  | AdminMenu
  | InvalidChatId
  | UserBlocked chat_id
  | AlreadyBlocked chat_id
  | UserUnblocked chat_id
  | NotBlocked chat_id
  | RequestCancelled chat_id
  | CancelNotice
  | WelcomeUpdated
  | SuffixUpdated
  | InvalidMaxLimit
  | MaxLimitUpdated int
  | CaptionUpdated
  | BroadcastHeader
  | BroadcastText string
  | BroadcastSent
  | AdminPrompt admin_stage
  | StatsReport int int int
  | Welcome string
  | AskCount int
  | InvalidCount int
  | AskReferral
  | ReferralRetry
  | AskTopics
  | NoTopics
  | Starting int string "string list"
  | DailyLimitReached int int
  | CancelledByAdmin
  | ReferralRejected
  | WalletFileError
  | SuccessHeader
  | WalletCreated nat int
  | Processed nat
  | WalletDocument
  | DocumentError
  | WithLines message "string list"

text \<open>
  The module-level variables of bot.js (lines 57-77 and 246), the two kinds of file
  the orchestrator writes (\<open>walletFiles\<close>, and \<open>usageFile\<close> for usage.json), the messages
  sent so far, the console, and \<open>jobs\<close>: the calls of \<open>processUserRequest\<close> that the
  message handler has started without awaiting them and that have not settled yet.
  Calls to the Telegram API and file writes are taken to succeed. The other files
  (blocked.json, stats.json, users.json and the configuration texts) are written
  through from the variables and are left out.
\<close>

record bot =
  adminId :: chat_id
  blockedUsers :: "chat_id list"
  usageData :: "chat_id \<rightharpoonup> usage"
  totalUsers :: int
  totalWalletRequests :: int
  usersList :: "chat_id list"
  welcomeMessage :: string
  suffix :: string
  maxLimit :: int
  globalCaption :: string
  pendingRequests :: "chat_id \<rightharpoonup> bool"
  adminState :: "chat_id \<rightharpoonup> admin_stage"
  userState :: "chat_id \<rightharpoonup> session"
  walletFiles :: "chat_id \<Rightarrow> wallet_file"
  usageFile :: "chat_id \<rightharpoonup> usage"
  outbox :: "(chat_id \<times> message) list"
  console :: "log_entry list"
  jobs :: "job list"

definition send :: "chat_id \<Rightarrow> message \<Rightarrow> bot \<Rightarrow> bot" where
  "send c m st = st\<lparr>outbox := outbox st @ [(c, m)]\<rparr>"

definition extra_lines :: "bot \<Rightarrow> string list" where
  "extra_lines st =
    (if globalCaption st \<noteq> [] then [globalCaption st] else [])
    @ (if suffix st \<noteq> [] then [suffix st] else [])"

text \<open>\<open>sendMessageWithHeader\<close> (lines 91-101).\<close>

definition sendMessageWithHeader :: "chat_id \<Rightarrow> message \<Rightarrow> message \<Rightarrow> bot \<Rightarrow> bot" where
  "sendMessageWithHeader c header body st =
     send c (WithLines body (extra_lines st)) (send c header st)"

section \<open>Job Orchestrator\<close>

text \<open>
  The environment of one unit: the keys drawn by \<open>createWallet\<close>, the outcomes of the
  registration calls and of the chat turns. The environment of one run of
  \<open>processUserRequest\<close>: the calendar day read at its start, the units, and the
  cancellations that the admin's handler performs (line 428) while the run is
  suspended: \<open>e_cancels_before env i\<close> during the delay that precedes the check of the
  cancel flag in iteration \<open>i\<close>, \<open>e_cancels_during env i\<close> after that check, while unit
  \<open>i\<close> registers and chats. Other requests running at the same time are not part of
  the run.
\<close>

record unit_env =
  e_keys :: "string \<times> string \<times> string"
  e_reg :: reg_env
  e_chat :: "nat \<Rightarrow> turn_env"

record job_env =
  e_today :: string
  e_units :: "nat \<Rightarrow> unit_env"
  e_cancels_before :: "nat \<Rightarrow> chat_id list"
  e_cancels_during :: "nat \<Rightarrow> chat_id list"

text \<open>\<open>pendingRequests[chatId] && pendingRequests[chatId].cancel\<close> (line 279).\<close>

definition cancelled :: "bot \<Rightarrow> chat_id \<Rightarrow> bool" where
  "cancelled st c = (case pendingRequests st c of None \<Rightarrow> False | Some b \<Rightarrow> b)"

text \<open>\<open>pendingRequests[targetId] = { cancel: true }\<close> (line 428), for each target in turn.\<close>

definition admin_cancels :: "chat_id list \<Rightarrow> bot \<Rightarrow> bot" where
  "admin_cancels ts st =
     st\<lparr>pendingRequests := fold (\<lambda>t m. m(t \<mapsto> True)) ts (pendingRequests st)\<rparr>"

text \<open>Lines 289-292: registration, and the conversation when it succeeded.\<close>

definition register_and_chat ::
  "wallet \<Rightarrow> string \<Rightarrow> unit_env \<Rightarrow> wallet \<times> log_entry list \<times> (exn + unit)" where
  "register_and_chat w referralCode ue =
    (case registerWallet w referralCode (e_reg ue) of
       (w1, lg, Inl e) \<Rightarrow> (w1, lg, Inl e)
     | (w1, lg, Inr isRegistered) \<Rightarrow>
         if isRegistered
         then (case completeDailyChats w1 (e_chat ue) of (w2, lg2) \<Rightarrow> (w2, lg @ lg2, Inr ()))
         else (w1, lg, Inr ()))"

text \<open>
  Lines 295-310: the wallet is appended to the actor's file, the progress message is
  sent, and the usage count is incremented and saved. The flag returned says whether
  \<open>usageData[chatId].count++\<close> threw because the entry is missing.
\<close>

definition persist_unit :: "chat_id \<Rightarrow> int \<Rightarrow> nat \<Rightarrow> wallet \<Rightarrow> bot \<Rightarrow> bot \<times> bool" where
  "persist_unit chatId count i w st =
    (let st1 = (case walletFiles st chatId of
                  Unparsable \<Rightarrow> send chatId WalletFileError st
                | _ \<Rightarrow> st);
         existing = stored_wallets (walletFiles st chatId);
         st2 = st1\<lparr>walletFiles := (walletFiles st1)(chatId := Stored (existing @ [w]))\<rparr>;
         st3 = sendMessageWithHeader chatId SuccessHeader (WalletCreated (i + 1) count) st2
     in case usageData st3 chatId of
          None \<Rightarrow> (st3, True)
        | Some r \<Rightarrow>
            (let ud = (usageData st3)(chatId \<mapsto> r\<lparr>u_count := u_count r + 1\<rparr>)
             in (st3\<lparr>usageData := ud, usageFile := ud\<rparr>, False)))"

text \<open>
  One iteration of the loop of \<open>processUserRequest\<close> (lines 278-310). \<open>Inl\<close> leaves the
  loop, by \<open>break\<close> or (flag \<open>True\<close>) by an exception that the outer \<open>catch\<close> receives;
  \<open>Inr\<close> goes on to the next iteration.
\<close>

definition unit_step ::
  "chat_id \<Rightarrow> int \<Rightarrow> string \<Rightarrow> string list \<Rightarrow> job_env \<Rightarrow> nat \<Rightarrow> bot \<Rightarrow> wallet list
     \<Rightarrow> (bot \<times> wallet list \<times> bool) + (bot \<times> wallet list)" where
  "unit_step chatId count referralCode tps env i st created =
    (let st1 = admin_cancels (e_cancels_before env i) st in
     if cancelled st1 chatId then Inl (send chatId CancelledByAdmin st1, created, False)
     else
       (let w0 = (createWallet (e_keys (e_units env i)))\<lparr>topics := tps\<rparr> in
        if length referralCode \<noteq> 6 then Inl (send chatId ReferralRejected st1, created, False)
        else
          (case register_and_chat w0 referralCode (e_units env i) of
             (w, lg, Inl e) \<Rightarrow> Inl (st1\<lparr>console := console st1 @ lg\<rparr>, created, True)
           | (w, lg, Inr _) \<Rightarrow>
               (let st2 = admin_cancels (e_cancels_during env i)
                            (st1\<lparr>console := console st1 @ lg\<rparr>)
                in case persist_unit chatId count i w st2 of
                     (st3, threw) \<Rightarrow>
                       if threw then Inl (st3, created @ [w], True)
                       else Inr (st3, created @ [w])))))"

text \<open>The loop \<open>for (let i = 0; i < count; i++)\<close> (line 277), from iteration \<open>i\<close> on.\<close>

function units_loop ::
  "chat_id \<Rightarrow> int \<Rightarrow> string \<Rightarrow> string list \<Rightarrow> job_env \<Rightarrow> nat \<Rightarrow> bot \<Rightarrow> wallet list
     \<Rightarrow> bot \<times> wallet list \<times> bool" where
  "units_loop chatId count referralCode tps env i st created =
    (if int i < count then
       (case unit_step chatId count referralCode tps env i st created of
          Inl r \<Rightarrow> r
        | Inr (st1, created1) \<Rightarrow>
            units_loop chatId count referralCode tps env (i + 1) st1 created1)
     else (st, created, False))"
  by pat_completeness auto
termination
  by (relation "measure (\<lambda>(chatId, count, referralCode, tps, env, i, st, created). nat (count - int i))")
     auto

declare units_loop.simps [simp del]

text \<open>Lines 266-268: a missing entry or an entry of another day is replaced.\<close>

definition reset_day :: "chat_id \<Rightarrow> string \<Rightarrow> bot \<Rightarrow> bot" where
  "reset_day chatId today st =
    (case usageData st chatId of
       None \<Rightarrow> st\<lparr>usageData := (usageData st)(chatId \<mapsto> \<lparr>u_date = today, u_count = 0\<rparr>)\<rparr>
     | Some r \<Rightarrow>
         if u_date r \<noteq> today
         then st\<lparr>usageData := (usageData st)(chatId \<mapsto> \<lparr>u_date = today, u_count = 0\<rparr>)\<rparr>
         else st)"

text \<open>
  Lines 313-323: the summary, then the actor's wallet file as a document; sending a
  file that does not exist fails and is reported to the actor.
\<close>

definition send_summary :: "chat_id \<Rightarrow> nat \<Rightarrow> bot \<Rightarrow> bot" where
  "send_summary chatId n st =
    (let st1 = send chatId (Processed n) st in
     case walletFiles st1 chatId of
       Missing \<Rightarrow> send chatId DocumentError st1
     | _ \<Rightarrow> send chatId WalletDocument st1)"

definition log_error :: "bot \<Rightarrow> bot" where
  "log_error st = st\<lparr>console := console st @ [RequestError]\<rparr>"

text \<open>
  \<open>processUserRequest\<close> (lines 263-327): the state when the call has settled, and the
  local array \<open>createdWallets\<close>. The outer \<open>catch\<close> only logs.
\<close>

definition processUserRequest ::
  "chat_id \<Rightarrow> int \<Rightarrow> string \<Rightarrow> string list \<Rightarrow> job_env \<Rightarrow> bot \<Rightarrow> bot \<times> wallet list" where
  "processUserRequest chatId count referralCode tps env st =
    (let st1 = reset_day chatId (e_today env) st in
     case usageData st1 chatId of
       None \<Rightarrow> (log_error st1, [])
     | Some r \<Rightarrow>
         if u_count r + count > maxLimit st1
         then (send chatId (DailyLimitReached (u_count r) (maxLimit st1)) st1, [])
         else
           (let st2 = st1\<lparr>totalWalletRequests := totalWalletRequests st1 + count\<rparr> in
            case units_loop chatId count referralCode tps env 0 st2 [] of
              (st3, created, threw) \<Rightarrow>
                if threw then (log_error st3, created)
                else (send_summary chatId (length created) st3, created)))"

section \<open>Reading the text of a message\<close>

text \<open>
  \<open>String.prototype.trim\<close>, \<open>parseInt\<close> without a radix and \<open>split(",")\<close>. A text is a
  list of \<open>char\<close>, that is of UTF-16 code units below 256; a message that holds a code
  unit above that range is outside the model. The white space that \<open>trim\<close> and
  \<open>parseInt\<close> skip is the set \<open>WhiteSpace\<close> and \<open>LineTerminator\<close> of ECMAScript; in this
  range these are tab, line feed, vertical tab, form feed, carriage return, space and
  the no-break space U+00A0 (the others, U+FEFF, U+1680, U+2000 to U+200A, U+2028,
  U+2029, U+202F, U+205F and U+3000, lie above it). \<open>parseInt\<close> skips leading white
  space and a sign, a prefix \<open>0x\<close> selects base 16, the longest prefix of digits is
  read, and \<open>None\<close> is \<open>NaN\<close>. Integers are unbounded here.
\<close>

definition is_space :: "char \<Rightarrow> bool" where
  "is_space c =
     (c \<in> set [CHR '' '', CHR 0x09, CHR 0x0A, CHR 0x0B, CHR 0x0C, CHR 0x0D, CHR 0xA0])"

definition trim :: "string \<Rightarrow> string" where
  "trim s = rev (dropWhile is_space (rev (dropWhile is_space s)))"

definition digit_of :: "char \<Rightarrow> nat" where
  "digit_of c =
    (let n = (of_char c :: nat) in
     if 48 \<le> n \<and> n \<le> 57 then n - 48
     else if 97 \<le> n \<and> n \<le> 122 then n - 87
     else if 65 \<le> n \<and> n \<le> 90 then n - 55
     else 36)"

definition parse_radix :: "nat \<Rightarrow> string \<Rightarrow> int option" where
  "parse_radix r s =
    (let ds = takeWhile (\<lambda>c. digit_of c < r) s in
     if ds = [] then None else Some (int (foldl (\<lambda>a c. a * r + digit_of c) 0 ds)))"

definition parseInt :: "string \<Rightarrow> int option" where
  "parseInt s =
    (let s1 = dropWhile is_space s;
         neg = (case s1 of [] \<Rightarrow> False | c # r \<Rightarrow> c = CHR ''-'');
         s2 = (case s1 of [] \<Rightarrow> [] | c # r \<Rightarrow> if c = CHR ''-'' \<or> c = CHR ''+'' then r else s1);
         v = (case s2 of
                a # b # r \<Rightarrow>
                  if a = CHR ''0'' \<and> (b = CHR ''x'' \<or> b = CHR ''X'') then parse_radix 16 r
                  else parse_radix 10 s2
              | _ \<Rightarrow> parse_radix 10 s2)
     in map_option (\<lambda>n. if neg then - n else n) v)"

fun split_comma :: "string \<Rightarrow> string list" where
  "split_comma [] = [[]]"
| "split_comma (c # cs) =
    (if c = CHR '','' then [] # split_comma cs
     else (case split_comma cs of [] \<Rightarrow> [[c]] | x # xs \<Rightarrow> (c # x) # xs))"

section \<open>Control Plane and Session State Machine\<close>

text \<open>
  The handlers of \<open>bot.on('message')\<close> (lines 376-527) and \<open>bot.on('callback_query')\<close>
  (lines 529-576), for text messages. A call of a handler is one step: what an
  interleaving with another handler at its awaits could change is not modelled.
\<close>

definition set_idle :: "chat_id \<Rightarrow> bot \<Rightarrow> bot" where
  "set_idle chatId st = st\<lparr>adminState := (adminState st)(chatId \<mapsto> Idle)\<rparr>"

fun broadcast_to :: "chat_id list \<Rightarrow> string \<Rightarrow> bot \<Rightarrow> bot" where
  "broadcast_to [] text st = st"
| "broadcast_to (userId # rest) text st =
     broadcast_to rest text (send userId (BroadcastText text) (send userId BroadcastHeader st))"

text \<open>The \<open>switch\<close> on the admin's stage (lines 389-483).\<close>

fun admin_input :: "admin_stage \<Rightarrow> chat_id \<Rightarrow> string \<Rightarrow> bot \<Rightarrow> bot" where
  "admin_input Idle chatId text st = st"
| "admin_input Block chatId text st =
    (case parseInt (trim text) of
       None \<Rightarrow> send chatId InvalidChatId st
     | Some targetId \<Rightarrow>
         set_idle chatId
           (if targetId \<notin> set (blockedUsers st)
            then send chatId (UserBlocked targetId)
                   (st\<lparr>blockedUsers := blockedUsers st @ [targetId]\<rparr>)
            else send chatId (AlreadyBlocked targetId) st))"
| "admin_input Unblock chatId text st =
    (case parseInt (trim text) of
       None \<Rightarrow> send chatId InvalidChatId st
     | Some targetId \<Rightarrow>
         set_idle chatId
           (if targetId \<in> set (blockedUsers st)
            then send chatId (UserUnblocked targetId)
                   (st\<lparr>blockedUsers := filter (\<lambda>id. id \<noteq> targetId) (blockedUsers st)\<rparr>)
            else send chatId (NotBlocked targetId) st))"
| "admin_input Cancel chatId text st =
    (case parseInt (trim text) of
       None \<Rightarrow> send chatId InvalidChatId st
     | Some targetId \<Rightarrow>
         set_idle chatId
           (send targetId CancelNotice
              (send chatId (RequestCancelled targetId)
                 (st\<lparr>pendingRequests := (pendingRequests st)(targetId \<mapsto> True)\<rparr>))))"
| "admin_input ChangeWelcome chatId text st =
    set_idle chatId (send chatId WelcomeUpdated (st\<lparr>welcomeMessage := text\<rparr>))"
| "admin_input SetSuffix chatId text st =
    set_idle chatId (send chatId SuffixUpdated (st\<lparr>suffix := text\<rparr>))"
| "admin_input ChangeMaxLimit chatId text st =
    (case parseInt (trim text) of
       None \<Rightarrow> send chatId InvalidMaxLimit st
     | Some newLimit \<Rightarrow>
         if newLimit \<le> 0 then send chatId InvalidMaxLimit st
         else set_idle chatId (send chatId (MaxLimitUpdated newLimit) (st\<lparr>maxLimit := newLimit\<rparr>)))"
| "admin_input SetGlobalCaption chatId text st =
    set_idle chatId (send chatId CaptionUpdated (st\<lparr>globalCaption := text\<rparr>))"
| "admin_input Broadcast chatId text st =
    set_idle chatId (send chatId BroadcastSent (broadcast_to (usersList st) text st))"

text \<open>\<open>handleStart\<close> (lines 248-261).\<close>

definition handleStart :: "chat_id \<Rightarrow> bot \<Rightarrow> bot" where
  "handleStart chatId st =
    (let st1 = (if chatId \<notin> set (usersList st)
                then st\<lparr>usersList := usersList st @ [chatId], totalUsers := totalUsers st + 1\<rparr>
                else st);
         st2 = send chatId (WithLines (Welcome (welcomeMessage st1)) (extra_lines st1)) st1;
         st3 = send chatId (AskCount (maxLimit st2)) st2
     in st3\<lparr>userState := (userState st3)(chatId \<mapsto> AwaitingCount)\<rparr>)"

text \<open>
  The stages of a session (lines 492-526). In the stage \<open>awaiting_topics\<close> a non-empty
  topic list starts \<open>processUserRequest\<close> without awaiting it (line 523) and deletes the
  session (line 524).
\<close>

fun session_input :: "session \<Rightarrow> chat_id \<Rightarrow> string \<Rightarrow> bot \<Rightarrow> bot" where
  "session_input AwaitingCount chatId text st =
    (case parseInt text of
       None \<Rightarrow> send chatId (InvalidCount (maxLimit st)) st
     | Some count \<Rightarrow>
         if count \<le> 0 \<or> count > maxLimit st then send chatId (InvalidCount (maxLimit st)) st
         else send chatId AskReferral
                (st\<lparr>userState := (userState st)(chatId \<mapsto> AwaitingRef count)\<rparr>))"
| "session_input (AwaitingRef count) chatId text st =
    (let refCode = trim text in
     if length refCode \<noteq> 6 then send chatId ReferralRetry st
     else send chatId AskTopics
            (st\<lparr>userState := (userState st)(chatId \<mapsto> AwaitingTopics count refCode)\<rparr>))"
| "session_input (AwaitingTopics count referralCode) chatId text st =
    (let tps = filter (\<lambda>t. t \<noteq> []) (map trim (split_comma text)) in
     if tps = [] then send chatId NoTopics st
     else
       (let st1 = send chatId (Starting count referralCode tps) st;
            st2 = st1\<lparr>jobs := jobs st1 @
                    [\<lparr>job_actor = chatId, job_count = count, job_referral = referralCode,
                      job_topics = tps\<rparr>]\<rparr>
        in st2\<lparr>userState := (userState st2)(chatId := None)\<rparr>))"

definition user_message :: "chat_id \<Rightarrow> string \<Rightarrow> bot \<Rightarrow> bot" where
  "user_message chatId text st =
    (if text = ''/start'' then handleStart chatId st
     else (case userState st chatId of
             None \<Rightarrow> st
           | Some s \<Rightarrow> session_input s chatId text st))"

definition admin_pending :: "bot \<Rightarrow> chat_id \<Rightarrow> admin_stage option" where
  "admin_pending st chatId =
    (if chatId = adminId st
     then (case adminState st chatId of
             None \<Rightarrow> None
           | Some stage \<Rightarrow> if stage \<noteq> Idle then Some stage else None)
     else None)"

definition on_message :: "chat_id \<Rightarrow> string \<Rightarrow> bot \<Rightarrow> bot" where
  "on_message chatId text st =
    (if chatId \<in> set (blockedUsers st) then send chatId YouAreBlocked st
     else if chatId = adminId st \<and> text = ''/admin''
     then send chatId AdminMenu (st\<lparr>adminState := (adminState st)(chatId \<mapsto> Idle)\<rparr>)
     else
       (case admin_pending st chatId of
          Some stage \<Rightarrow> admin_input stage chatId text st
        | None \<Rightarrow> user_message chatId text st))"

definition prompt_stage :: "admin_stage \<Rightarrow> chat_id \<Rightarrow> bot \<Rightarrow> bot" where
  "prompt_stage stage adminChatId st =
     send adminChatId (AdminPrompt stage)
       (st\<lparr>adminState := (adminState st)(adminChatId \<mapsto> stage)\<rparr>)"

definition on_callback :: "chat_id \<Rightarrow> string \<Rightarrow> bot \<Rightarrow> bot" where
  "on_callback adminChatId action st =
    (if adminChatId \<noteq> adminId st then st
     else if action = ''block_user'' then prompt_stage Block adminChatId st
     else if action = ''unblock_user'' then prompt_stage Unblock adminChatId st
     else if action = ''cancel_request'' then prompt_stage Cancel adminChatId st
     else if action = ''show_stats''
     then send adminChatId
            (StatsReport (totalUsers st) (totalWalletRequests st) (maxLimit st)) st
     else if action = ''change_welcome'' then prompt_stage ChangeWelcome adminChatId st
     else if action = ''set_suffix'' then prompt_stage SetSuffix adminChatId st
     else if action = ''change_max_limit'' then prompt_stage ChangeMaxLimit adminChatId st
     else if action = ''set_global_caption'' then prompt_stage SetGlobalCaption adminChatId st
     else if action = ''broadcast'' then prompt_stage Broadcast adminChatId st
     else st)"

text \<open>
  The promise of the \<open>k\<close>-th running call of \<open>processUserRequest\<close> settles. What the
  call did to the state in the meantime is given by \<open>processUserRequest\<close> above; the
  events below only follow which calls are running.
\<close>

definition settle_job :: "nat \<Rightarrow> bot \<Rightarrow> bot" where
  "settle_job k st = st\<lparr>jobs := take k (jobs st) @ drop (Suc k) (jobs st)\<rparr>"

datatype event = Message chat_id string | CallbackQuery chat_id string | JobSettled nat

fun step :: "bot \<Rightarrow> event \<Rightarrow> bot" where
  "step st (Message chatId text) = on_message chatId text st"
| "step st (CallbackQuery adminChatId action) = on_callback adminChatId action st"
| "step st (JobSettled k) = settle_job k st"

definition run :: "bot \<Rightarrow> event list \<Rightarrow> bot" where
  "run st evs = foldl step st evs"

text \<open>The state after start-up when no file exists (lines 22-26 and 57-77).\<close>

definition DEFAULT_WELCOME :: string where
  "DEFAULT_WELCOME =
     ''*This bot is for Quack AI referrals & auto-chat!*'' @ [CHR 0x0A]
     @ ''Quack AI Airdrop Link: https://quack-ai-api.duckchain.io'' @ [CHR 0x0A]
     @ ''This bot was made by @vikitoshi and @Muhannad2025''"

definition start_bot :: "chat_id \<Rightarrow> bot" where
  "start_bot admin =
    \<lparr>adminId = admin, blockedUsers = [], usageData = Map.empty, totalUsers = 0,
     totalWalletRequests = 0, usersList = [], welcomeMessage = DEFAULT_WELCOME, suffix = [],
     maxLimit = 100, globalCaption = [], pendingRequests = Map.empty,
     adminState = Map.empty, userState = Map.empty, walletFiles = (\<lambda>c. Missing),
     usageFile = Map.empty, outbox = [], console = [], jobs = []\<rparr>"

section \<open>Notions used in the statements\<close>

subsection \<open>Registration Client\<close>

text \<open>
  A handshake step fails: one of the awaited calls rejects, or the authentication
  response carries no token.
\<close>

definition lacks_token :: "connect_body \<Rightarrow> bool" where
  "lacks_token b = (case b of NoBody \<Rightarrow> True | NoData \<Rightarrow> True | Data tok \<Rightarrow> \<not> truthy tok)"

definition handshake_fails :: "reg_env \<Rightarrow> bool" where
  "handshake_fails env =
    (r_lookup env = Rejected \<or> r_sign env = Rejected
     \<or> (case r_connect env of Rejected \<Rightarrow> True | Resolved b \<Rightarrow> lacks_token b)
     \<or> r_bind env = Rejected \<or> r_requery env = Rejected)"

text \<open>
  The handshake succeeds end-to-end: every call resolves, the authentication response
  carries a token, and the final profile query reports the code 200.
\<close>

definition handshake_succeeds :: "reg_env \<Rightarrow> bool" where
  "handshake_succeeds env =
    (r_lookup env \<noteq> Rejected \<and> r_sign env \<noteq> Rejected
     \<and> (case r_connect env of Rejected \<Rightarrow> False | Resolved b \<Rightarrow> \<not> lacks_token b)
     \<and> r_bind env \<noteq> Rejected \<and> r_requery env = Resolved (Info (JNum 200)))"

text \<open>Steps 1 to 3 succeed with the token \<open>tok\<close>, and the run fails afterwards.\<close>

definition fails_after_token :: "reg_env \<Rightarrow> jsval \<Rightarrow> bool" where
  "fails_after_token env tok =
    (r_lookup env \<noteq> Rejected \<and> r_sign env \<noteq> Rejected
     \<and> r_connect env = Resolved (Data tok) \<and> truthy tok
     \<and> (r_bind env = Rejected \<or> r_requery env \<noteq> Resolved (Info (JNum 200))))"

text \<open>An environment in which the handshake succeeds, and a fresh identity.\<close>

definition env_ok :: reg_env where
  "env_ok = \<lparr>r_lookup = Resolved (), r_sign = Resolved ''sig'',
     r_connect = Resolved (Data (JStr ''tok'')), r_bind = Resolved (),
     r_requery = Resolved (Info (JNum 200))\<rparr>"

definition wallet0 :: wallet where
  "wallet0 = createWallet (''0xA'', ''key'', ''phrase'')"

subsection \<open>Conversation Runner and Topic Selector\<close>

text \<open>
  A turn succeeds when the wallet has a session token and the POST resolves with the
  status 200. \<open>successful_turns\<close> counts the turns that succeed before the first one that
  does not, among the five the loop allows. In the log, a turn is a call of
  \<open>performChat\<close> (it writes \<open>NoJwt\<close> or \<open>ChatTopic\<close>), and \<open>ChatDone\<close> is written next to the
  increment of \<open>chats\<close>.
\<close>

definition turn_succeeds :: "wallet \<Rightarrow> turn_env \<Rightarrow> bool" where
  "turn_succeeds w e = (truthy (jwt w) \<and> t_post e = Resolved 200)"

definition successful_turns :: "wallet \<Rightarrow> (nat \<Rightarrow> turn_env) \<Rightarrow> nat" where
  "successful_turns w env = length (takeWhile (\<lambda>j. turn_succeeds w (env j)) [0..<5])"

fun is_turn :: "log_entry \<Rightarrow> bool" where
  "is_turn (NoJwt a) = True"
| "is_turn (ChatTopic a i t) = True"
| "is_turn e = False"

fun is_done :: "log_entry \<Rightarrow> bool" where
  "is_done (ChatDone a i) = True"
| "is_done e = False"

definition turns_run :: "log_entry list \<Rightarrow> nat" where
  "turns_run lg = length (filter is_turn lg)"

definition turns_done :: "log_entry list \<Rightarrow> nat" where
  "turns_done lg = length (filter is_done lg)"


text \<open>The draw that yields the index 0 for every length, as \<open>Math.random()\<close> returning 0 does.\<close>

definition first_draw :: draw where
  "first_draw n = 0"

definition wallet2 :: wallet where
  "wallet2 = wallet0\<lparr>topics := [''t1'', ''t2'']\<rparr>"


definition wallet_reg :: wallet where
  "wallet_reg = wallet2\<lparr>jwt := JStr ''tok''\<rparr>"

definition two_good_turns :: "nat \<Rightarrow> turn_env" where
  "two_good_turns i = \<lparr>t_draw = first_draw, t_post = (if i < 2 then Resolved 200 else Rejected)\<rparr>"

subsection \<open>Quota gate and cancellation\<close>

text \<open>
  The count of the actor's entry when it is dated today, and 0 otherwise: the usage the
  gate compares. \<open>flag_seen st env c i\<close>: the cancel flag of \<open>c\<close> is set when iteration
  \<open>i\<close> of a run that starts in \<open>st\<close> checks it, having been set before the run or during
  one of its suspensions up to that check.
\<close>

definition same_day_count :: "bot \<Rightarrow> chat_id \<Rightarrow> string \<Rightarrow> int" where
  "same_day_count st c today =
    (case usageData st c of
       None \<Rightarrow> 0
     | Some r \<Rightarrow> if u_date r = today then u_count r else 0)"

definition flag_seen :: "bot \<Rightarrow> job_env \<Rightarrow> chat_id \<Rightarrow> nat \<Rightarrow> bool" where
  "flag_seen st env c i =
    (cancelled st c
     \<or> list_ex (\<lambda>k. c \<in> set (e_cancels_before env k)) [0..<Suc i]
     \<or> list_ex (\<lambda>k. c \<in> set (e_cancels_during env k)) [0..<i])"

text \<open>
  The wallet that a unit appends to \<open>createdWallets\<close> and to the file: the fresh wallet
  with the job's topics, after registration and, when registered, the conversation.
  \<open>good_turns\<close> counts the turns that get the status 200 before the first that does not.
\<close>

definition unit_wallet :: "string list \<Rightarrow> string \<Rightarrow> unit_env \<Rightarrow> wallet" where
  "unit_wallet tps referralCode ue =
     fst (register_and_chat ((createWallet (e_keys ue))\<lparr>topics := tps\<rparr>) referralCode ue)"

definition good_turns :: "(nat \<Rightarrow> turn_env) \<Rightarrow> nat" where
  "good_turns ce = length (takeWhile (\<lambda>j. t_post (ce j) = Resolved 200) [0..<5])"




subsection \<open>Example inputs\<close>

definition unit_ok :: unit_env where
  "unit_ok = \<lparr>e_keys = (''0xA'', ''key'', ''phrase''), e_reg = env_ok,
     e_chat = (\<lambda>j. \<lparr>t_draw = first_draw, t_post = Resolved 200\<rparr>)\<rparr>"

definition env_day2 :: job_env where
  "env_day2 = \<lparr>e_today = ''2026-01-02'', e_units = (\<lambda>i. unit_ok),
     e_cancels_before = (\<lambda>i. []), e_cancels_during = (\<lambda>i. [])\<rparr>"

definition env_cancel_mid :: job_env where
  "env_cancel_mid = env_day2\<lparr>e_cancels_during := (\<lambda>i. if i = 0 then [7] else [])\<rparr>"

definition quota_bot :: bot where
  "quota_bot = (start_bot 1)
     \<lparr>usageData := [7 \<mapsto> \<lparr>u_date = ''2026-01-02'', u_count = 8\<rparr>], maxLimit := 10\<rparr>"

definition stale_bot :: bot where
  "stale_bot = (start_bot 1)
     \<lparr>usageData := [7 \<mapsto> \<lparr>u_date = ''2026-01-01'', u_count = 8\<rparr>]\<rparr>"

definition cancel_stage_bot :: bot where
  "cancel_stage_bot = (start_bot 1)\<lparr>adminState := [1 \<mapsto> Cancel]\<rparr>"

definition lowered_limit :: "event list" where
  "lowered_limit =
    [Message 7 ''/start'', Message 7 ''5'', CallbackQuery 1 ''change_max_limit'',
     Message 1 ''3'', Message 7 ''ABCDEF'', Message 7 ''t1'']"

definition two_requests :: "event list" where
  "two_requests =
    [Message 7 ''/start'', Message 7 ''2'', Message 7 ''ABCDEF'', Message 7 ''t1, t2'',
     Message 7 ''/start'', Message 7 ''1'', Message 7 ''ABCDEF'', Message 7 ''t3'']"

section \<open>Registration Client: results\<close>

lemma registerWallet_returns:
  "\<exists>w' lg b. registerWallet w referralCode env = (w', lg, Inr b)"
  unfolding registerWallet_def
  by (cases "registerWallet_try w referralCode env" rule: prod_cases3)
     (auto split: sum.splits)

lemma outcome_neq_Rejected: "(x \<noteq> Rejected) = (\<exists>v. x = Resolved v)"
  by (cases x) auto

lemma registerWallet_registered_iff:
  "registered (fst (registerWallet w referralCode env))
     = (registered w \<or> handshake_succeeds env)"
  unfolding registerWallet_def registerWallet_try_def handshake_succeeds_def lacks_token_def
  by (auto simp: Let_def split: outcome.splits connect_body.splits info_body.splits)

lemma registerWallet_result_iff:
  "snd (snd (registerWallet w referralCode env)) = Inr (handshake_succeeds env)"
  unfolding registerWallet_def registerWallet_try_def handshake_succeeds_def lacks_token_def
  by (auto simp: Let_def split: outcome.splits connect_body.splits info_body.splits)

lemma fails_not_succeeds: "handshake_fails env \<Longrightarrow> \<not> handshake_succeeds env"
  unfolding handshake_fails_def handshake_succeeds_def
  by (auto split: outcome.splits)

text \<open>
  Claim C3. For every identity and referral code, when one of the handshake steps
  fails (an awaited call rejects at any step, or the authentication response lacks a
  token), \<open>registerWallet\<close> returns the boolean \<open>false\<close>, no exception leaves it, and the
  \<open>registered\<close> flag of the identity, false before, is still false.
\<close>

theorem C3_failed_step_returns_false:
  assumes "handshake_fails env" and "\<not> registered w"
  shows "snd (snd (registerWallet w referralCode env)) = Inr False
       \<and> \<not> registered (fst (registerWallet w referralCode env))"
  using assms fails_not_succeeds [of env]
  by (simp add: registerWallet_result_iff registerWallet_registered_iff)

theorem C3_witness:
  "handshake_fails (env_ok\<lparr>r_bind := Rejected\<rparr>) \<and> \<not> registered wallet0
   \<and> snd (snd (registerWallet wallet0 ''ABCDEF'' (env_ok\<lparr>r_bind := Rejected\<rparr>))) = Inr False
   \<and> \<not> registered (fst (registerWallet wallet0 ''ABCDEF'' (env_ok\<lparr>r_bind := Rejected\<rparr>)))"
proof -
  have h: "handshake_fails (env_ok\<lparr>r_bind := Rejected\<rparr>)"
    by (simp add: handshake_fails_def env_ok_def)
  have r: "\<not> registered wallet0"
    by (simp add: wallet0_def createWallet_def)
  from C3_failed_step_returns_false [OF h r, of "''ABCDEF''"] h r show ?thesis by simp
qed

text \<open>
  Claim C6. For an identity that is not yet registered, \<open>registered\<close> is true after
  \<open>registerWallet\<close> exactly when the handshake succeeded end-to-end, that is when every
  call resolved, a token was obtained and the final profile query reported the code
  200; in every other outcome it is still false. The value returned is that flag.
\<close>

theorem C6_registered_only_after_handshake:
  assumes "\<not> registered w"
  shows "registered (fst (registerWallet w referralCode env)) = handshake_succeeds env
       \<and> snd (snd (registerWallet w referralCode env)) = Inr (handshake_succeeds env)
       \<and> (handshake_succeeds env \<longrightarrow> r_requery env = Resolved (Info (JNum 200)))"
  using assms
  by (simp add: registerWallet_result_iff registerWallet_registered_iff
      handshake_succeeds_def)

theorem C6_witness:
  "\<not> registered wallet0 \<and> handshake_succeeds env_ok
   \<and> registered (fst (registerWallet wallet0 ''ABCDEF'' env_ok))
   \<and> \<not> handshake_succeeds (env_ok\<lparr>r_requery := Resolved (Info (JNum 404))\<rparr>)
   \<and> \<not> registered (fst (registerWallet wallet0 ''ABCDEF''
          (env_ok\<lparr>r_requery := Resolved (Info (JNum 404))\<rparr>)))"
proof -
  have r: "\<not> registered wallet0"
    by (simp add: wallet0_def createWallet_def)
  have s: "handshake_succeeds env_ok"
    by (simp add: handshake_succeeds_def env_ok_def lacks_token_def)
  have f: "\<not> handshake_succeeds (env_ok\<lparr>r_requery := Resolved (Info (JNum 404))\<rparr>)"
    by (simp add: handshake_succeeds_def env_ok_def lacks_token_def)
  from C6_registered_only_after_handshake [OF r, of "''ABCDEF''" env_ok]
    C6_registered_only_after_handshake [OF r, of "''ABCDEF''"
      "env_ok\<lparr>r_requery := Resolved (Info (JNum 404))\<rparr>"] r s f
  show ?thesis by simp
qed

text \<open>
  Claim C10. Registration is not atomic on failure: when steps 1 to 3 succeed with a
  token and the run then fails (the invite binding or the final profile query throws,
  or the final query does not report the code 200), \<open>registerWallet\<close> returns \<open>false\<close>
  and \<open>registered\<close> stays false, yet the identity keeps the token of step 3 as its
  \<open>jwt\<close>, which is not null.
\<close>

theorem C10_token_kept_on_late_failure:
  assumes "fails_after_token env tok" and "\<not> registered w"
  shows "snd (snd (registerWallet w referralCode env)) = Inr False
       \<and> \<not> registered (fst (registerWallet w referralCode env))
       \<and> jwt (fst (registerWallet w referralCode env)) = tok \<and> tok \<noteq> JNull"
  using assms
  unfolding registerWallet_def registerWallet_try_def fails_after_token_def
  by (auto simp: Let_def outcome_neq_Rejected split: outcome.splits info_body.splits)

theorem C10_witness:
  "fails_after_token (env_ok\<lparr>r_requery := Resolved (Info (JNum 500))\<rparr>) (JStr ''tok'')
   \<and> \<not> registered wallet0
   \<and> snd (snd (registerWallet wallet0 ''ABCDEF''
        (env_ok\<lparr>r_requery := Resolved (Info (JNum 500))\<rparr>))) = Inr False
   \<and> jwt (fst (registerWallet wallet0 ''ABCDEF''
        (env_ok\<lparr>r_requery := Resolved (Info (JNum 500))\<rparr>))) = JStr ''tok''"
proof -
  have h: "fails_after_token (env_ok\<lparr>r_requery := Resolved (Info (JNum 500))\<rparr>) (JStr ''tok'')"
    by (simp add: fails_after_token_def env_ok_def)
  have r: "\<not> registered wallet0"
    by (simp add: wallet0_def createWallet_def)
  from C10_token_kept_on_late_failure [OF h r, of "''ABCDEF''"] h r show ?thesis by simp
qed

section \<open>Topic Selector and Conversation Runner: results\<close>

lemma getRandomTopic_keeps:
  "jwt (fst (getRandomTopic w p)) = jwt w"
  "chats (fst (getRandomTopic w p)) = chats w"
  "topics (fst (getRandomTopic w p)) = topics w"
  by (simp_all add: getRandomTopic_def Let_def)

lemma performChat_result: "snd (snd (performChat w i e)) = turn_succeeds w e"
  by (simp add: performChat_def turn_succeeds_def Let_def split: prod.splits outcome.splits)

lemma performChat_jwt: "jwt (fst (performChat w i e)) = jwt w"
  using getRandomTopic_keeps(1) [of w "t_draw e"]
  by (auto simp add: performChat_def Let_def split: prod.splits outcome.splits)

lemma performChat_chats:
  "chats (fst (performChat w i e)) = chats w + (if turn_succeeds w e then 1 else 0)"
  using getRandomTopic_keeps(2) [of w "t_draw e"]
  by (auto simp add: performChat_def turn_succeeds_def Let_def split: prod.splits outcome.splits)

lemma performChat_log:
  "turns_run (fst (snd (performChat w i e))) = 1"
  "turns_done (fst (snd (performChat w i e))) = (if turn_succeeds w e then 1 else 0)"
  by (simp_all add: performChat_def turn_succeeds_def turns_run_def turns_done_def Let_def
      split: prod.splits outcome.splits)

lemma chat_turns_unfold:
  "i < 5 \<Longrightarrow> performChat w i (env i) = (w1, lg1, ok) \<Longrightarrow>
   chat_turns i w env =
     (if \<not> ok then (w1, lg1 @ [ChatStopped (address w1)])
      else (case chat_turns (i + 1) w1 env of (w2, lg2) \<Rightarrow> (w2, lg1 @ lg2)))"
  by (subst chat_turns.simps) simp

lemma chat_turns_spec:
  "chat_turns i w env = (w', lg) \<Longrightarrow>
     chats w' = chats w + int (length (takeWhile (\<lambda>j. turn_succeeds w (env j)) [i..<5]))
   \<and> jwt w' = jwt w
   \<and> turns_done lg = length (takeWhile (\<lambda>j. turn_succeeds w (env j)) [i..<5])
   \<and> turns_run lg = min (5 - i) (length (takeWhile (\<lambda>j. turn_succeeds w (env j)) [i..<5]) + 1)"
proof (induction i w env arbitrary: w' lg rule: chat_turns.induct)
  case (1 i w env)
  show ?case
  proof (cases "i < 5")
    case False
    with "1.prems" show ?thesis
      by (auto simp add: chat_turns.simps [of i w env] turns_run_def turns_done_def)
  next
    case True
    obtain w1 lg1 ok where pc: "performChat w i (env i) = (w1, lg1, ok)"
      by (cases "performChat w i (env i)" rule: prod_cases3)
    have ok: "ok = turn_succeeds w (env i)"
      using performChat_result [of w i "env i"] pc by simp
    have j1: "jwt w1 = jwt w" using performChat_jwt [of w i "env i"] pc by simp
    have c1: "chats w1 = chats w + (if ok then 1 else 0)"
      using performChat_chats [of w i "env i"] pc ok by simp
    have l1: "turns_run lg1 = 1" "turns_done lg1 = (if ok then 1 else 0)"
      using performChat_log [of w i "env i"] pc ok by simp_all
    have up: "[i..<5] = i # [i + 1..<5]" using True by (simp add: upt_conv_Cons)
    have app: "\<And>a b. turns_run (a @ b) = turns_run a + turns_run b"
      "\<And>a b. turns_done (a @ b) = turns_done a + turns_done b"
      by (simp_all add: turns_run_def turns_done_def)
    show ?thesis
    proof (cases ok)
      case False
      from chat_turns_unfold [of i w env, OF True pc] False
      have "chat_turns i w env = (w1, lg1 @ [ChatStopped (address w1)])" by simp
      with "1.prems" have res: "w' = w1" "lg = lg1 @ [ChatStopped (address w1)]" by auto
      have tw: "takeWhile (\<lambda>j. turn_succeeds w (env j)) [i..<5] = []"
        unfolding up using False ok by simp
      have st: "turns_run [ChatStopped (address w1)] = 0" "turns_done [ChatStopped (address w1)] = 0"
        by (simp_all add: turns_run_def turns_done_def)
      have "Suc 0 \<le> 5 - i" using True by simp
      then have m: "min (5 - i) (Suc 0) = Suc 0" by (rule min_absorb2)
      show ?thesis
        unfolding res tw app st l1 using False j1 c1 by (simp add: m)
    next
      case yes: True
      obtain w2 lg2 where rec: "chat_turns (i + 1) w1 env = (w2, lg2)"
        by (cases "chat_turns (i + 1) w1 env")
      from chat_turns_unfold [of i w env, OF True pc] yes rec
      have "chat_turns i w env = (w2, lg1 @ lg2)" by simp
      with "1.prems" have res: "w' = w2" "lg = lg1 @ lg2" by auto
      have same: "(\<lambda>j. turn_succeeds w1 (env j)) = (\<lambda>j. turn_succeeds w (env j))"
        by (simp add: turn_succeeds_def j1)
      define k where "k = length (takeWhile (\<lambda>j. turn_succeeds w (env j)) [i + 1..<5])"
      have "chats w2 = chats w1 + int (length (takeWhile (\<lambda>j. turn_succeeds w1 (env j)) [i + 1..<5]))
   \<and> jwt w2 = jwt w1
   \<and> turns_done lg2 = length (takeWhile (\<lambda>j. turn_succeeds w1 (env j)) [i + 1..<5])
   \<and> turns_run lg2 = min (5 - (i + 1)) (length (takeWhile (\<lambda>j. turn_succeeds w1 (env j)) [i + 1..<5]) + 1)"
        using "1.IH" [OF True pc [symmetric] refl _ rec] yes by simp
      then have ih: "chats w2 = chats w1 + int k" "jwt w2 = jwt w1" "turns_done lg2 = k"
        "turns_run lg2 = min (5 - (i + 1)) (k + 1)"
        unfolding k_def same [symmetric] by simp_all
      have tw: "length (takeWhile (\<lambda>j. turn_succeeds w (env j)) [i..<5]) = k + 1"
        unfolding up k_def using yes ok by simp
      have c: "chats w2 = chats w + int (k + 1)"
        using ih(1) c1 yes by simp
      have r: "turns_run lg1 + turns_run lg2 = min (5 - i) (k + 1 + 1)"
        unfolding l1 ih using True by (auto simp add: min_def)
      have d: "turns_done lg1 + turns_done lg2 = k + 1"
        unfolding l1 ih using yes by simp
      show ?thesis
        unfolding res tw app using c r d ih(2) j1 by simp
    qed
  qed
qed

text \<open>
  Claim C7. For every identity, \<open>completeDailyChats\<close> runs at most 5 turns one after the
  other and leaves the loop at the first turn that fails: when \<open>k\<close> turns succeed before
  the first failure it runs \<open>min 5 (k + 1)\<close> turns. The chat count is incremented once for
  each successful turn and at no other point, so it ends at its initial value plus \<open>k\<close>
  with \<open>k \<le> 5\<close>: it only increases, and for an identity that starts at 0, as every
  created identity does, it never exceeds 5.
\<close>

theorem C7_conversation_runner:
  assumes "completeDailyChats w env = (w', lg)"
  shows "chats w' = chats w + int (successful_turns w env)
       \<and> successful_turns w env \<le> 5
       \<and> turns_done lg = successful_turns w env
       \<and> turns_run lg = min 5 (successful_turns w env + 1)
       \<and> chats w \<le> chats w'
       \<and> (chats w = 0 \<longrightarrow> chats w' \<le> 5)"
proof -
  obtain w1 lg1 where ct: "chat_turns 0 w env = (w1, lg1)"
    by (cases "chat_turns 0 w env")
  with assms have res: "w' = w1"
    "lg = [StartingChats (address w)] @ lg1 @ [ChatsCompleted (address w1) (chats w1)]"
    by (auto simp add: completeDailyChats_def)
  have k5: "successful_turns w env \<le> 5"
    unfolding successful_turns_def
    using length_takeWhile_le [of "\<lambda>j. turn_succeeds w (env j)" "[0..<5]"] by simp
  have lgs: "turns_run lg = turns_run lg1" "turns_done lg = turns_done lg1"
    unfolding res by (simp_all add: turns_run_def turns_done_def)
  from chat_turns_spec [OF ct] k5 show ?thesis
    unfolding lgs res(1) successful_turns_def by simp
qed

theorem C7_witness:
  "chats wallet_reg = 0 \<and> successful_turns wallet_reg two_good_turns = 2
   \<and> chats (fst (completeDailyChats wallet_reg two_good_turns)) = 2
   \<and> turns_run (snd (completeDailyChats wallet_reg two_good_turns)) = 3
   \<and> chats (fst (completeDailyChats wallet_reg two_good_turns)) \<le> 5"
proof -
  have z: "chats wallet_reg = 0"
    by (simp add: wallet_reg_def wallet2_def wallet0_def createWallet_def)
  have up: "[0..<5] = [0, 1, 2, 3, 4]" by (simp add: upt_rec)
  have k: "successful_turns wallet_reg two_good_turns = 2"
    unfolding successful_turns_def up
    by (simp add: turn_succeeds_def two_good_turns_def wallet_reg_def)
  from C7_conversation_runner [of wallet_reg two_good_turns
      "fst (completeDailyChats wallet_reg two_good_turns)"
      "snd (completeDailyChats wallet_reg two_good_turns)"] z k
  show ?thesis by simp
qed








section \<open>Job Orchestrator: results\<close>

lemma send_frame [simp]:
  "usageData (send c m st) = usageData st"
  "usageFile (send c m st) = usageFile st"
  "walletFiles (send c m st) = walletFiles st"
  "pendingRequests (send c m st) = pendingRequests st"
  "totalWalletRequests (send c m st) = totalWalletRequests st"
  "maxLimit (send c m st) = maxLimit st"
  "outbox (send c m st) = outbox st @ [(c, m)]"
  by (simp_all add: send_def)

lemma cancelled_send [simp]: "cancelled (send c m st) t = cancelled st t"
  by (simp add: cancelled_def)

lemma fold_cancel:
  "fold (\<lambda>t m. m(t \<mapsto> True)) ts m x = (if x \<in> set ts then Some True else m x)"
  by (induction ts arbitrary: m) auto

lemma admin_cancels_frame [simp]:
  "usageData (admin_cancels ts st) = usageData st"
  "usageFile (admin_cancels ts st) = usageFile st"
  "walletFiles (admin_cancels ts st) = walletFiles st"
  "totalWalletRequests (admin_cancels ts st) = totalWalletRequests st"
  "maxLimit (admin_cancels ts st) = maxLimit st"
  "outbox (admin_cancels ts st) = outbox st"
  by (simp_all add: admin_cancels_def)

lemma cancelled_admin_cancels [simp]:
  "cancelled (admin_cancels ts st) t = (cancelled st t \<or> t \<in> set ts)"
  by (simp add: cancelled_def admin_cancels_def fold_cancel)

lemma cancelled_console [simp]: "cancelled (st\<lparr>console := x\<rparr>) t = cancelled st t"
  by (simp add: cancelled_def)

lemma register_and_chat_returns:
  "\<exists>w lg. register_and_chat w0 referralCode ue = (w, lg, Inr ())"
proof -
  obtain w1 lg b where r: "registerWallet w0 referralCode (e_reg ue) = (w1, lg, Inr b)"
    using registerWallet_returns by blast
  show ?thesis
    unfolding register_and_chat_def r
    by (cases "completeDailyChats w1 (e_chat ue)") simp
qed

lemma persist_unit_ok:
  assumes "usageData st c = Some r"
  shows "\<exists>st'. persist_unit c count i w st = (st', False)
     \<and> usageData st' = (usageData st)(c \<mapsto> r\<lparr>u_count := u_count r + 1\<rparr>)
     \<and> usageFile st' = usageData st'
     \<and> walletFiles st' = (walletFiles st)(c := Stored (stored_wallets (walletFiles st c) @ [w]))
     \<and> pendingRequests st' = pendingRequests st
     \<and> totalWalletRequests st' = totalWalletRequests st
     \<and> maxLimit st' = maxLimit st"
  using assms
  by (cases "walletFiles st c")
     (simp_all add: persist_unit_def sendMessageWithHeader_def stored_wallets_def Let_def)


lemma flag_seen_iff:
  "flag_seen st env c i =
    (cancelled st c \<or> (\<exists>k\<le>i. c \<in> set (e_cancels_before env k))
     \<or> (\<exists>k<i. c \<in> set (e_cancels_during env k)))"
  unfolding flag_seen_def list_ex_iff set_upt
  by (auto simp add: less_Suc_eq_le)

lemma flag_seen_cong:
  "pendingRequests st' = pendingRequests st \<Longrightarrow> flag_seen st' env c i = flag_seen st env c i"
  by (simp add: flag_seen_def cancelled_def)

lemma unit_step_cancelled:
  assumes "cancelled st c \<or> c \<in> set (e_cancels_before env i)"
  shows "unit_step c count referralCode tps env i st created =
           Inl (send c CancelledByAdmin (admin_cancels (e_cancels_before env i) st), created, False)"
  using assms by (simp add: unit_step_def Let_def)

lemma unit_step_produces:
  assumes "\<not> cancelled st c" and "c \<notin> set (e_cancels_before env i)"
    and "length referralCode = 6" and "usageData st c = Some r"
  shows "\<exists>st' w. unit_step c count referralCode tps env i st created = Inr (st', created @ [w])
     \<and> w = unit_wallet tps referralCode (e_units env i)
     \<and> usageData st' = (usageData st)(c \<mapsto> r\<lparr>u_count := u_count r + 1\<rparr>)
     \<and> usageFile st' = usageData st'
     \<and> walletFiles st' = (walletFiles st)(c := Stored (stored_wallets (walletFiles st c) @ [w]))
     \<and> (\<forall>t. cancelled st' t = (cancelled st t \<or> t \<in> set (e_cancels_before env i)
                                 \<or> t \<in> set (e_cancels_during env i)))
     \<and> totalWalletRequests st' = totalWalletRequests st"
proof -
  let ?st1 = "admin_cancels (e_cancels_before env i) st"
  let ?w0 = "(createWallet (e_keys (e_units env i)))\<lparr>topics := tps\<rparr>"
  obtain w lg where rc: "register_and_chat ?w0 referralCode (e_units env i) = (w, lg, Inr ())"
    using register_and_chat_returns by blast
  let ?st2 = "admin_cancels (e_cancels_during env i) (?st1\<lparr>console := console ?st1 @ lg\<rparr>)"
  have u2: "usageData ?st2 c = Some r" using assms(4) by simp
  from persist_unit_ok [OF u2, of count i w] obtain st' where
    p: "persist_unit c count i w ?st2 = (st', False)"
    and f: "usageData st' = (usageData ?st2)(c \<mapsto> r\<lparr>u_count := u_count r + 1\<rparr>)"
      "usageFile st' = usageData st'"
      "walletFiles st' = (walletFiles ?st2)(c := Stored (stored_wallets (walletFiles ?st2 c) @ [w]))"
      "pendingRequests st' = pendingRequests ?st2"
      "totalWalletRequests st' = totalWalletRequests ?st2"
    by blast
  have n1: "\<not> cancelled ?st1 c" using assms(1,2) by simp
  have step: "unit_step c count referralCode tps env i st created = Inr (st', created @ [w])"
    using n1 assms(3) by (simp add: unit_step_def Let_def rc p)
  have c: "\<And>t. cancelled st' t = cancelled ?st2 t"
    using f(4) by (simp add: cancelled_def)
  have uw: "w = unit_wallet tps referralCode (e_units env i)"
    by (simp add: unit_wallet_def rc)
  show ?thesis
    using step f(1,2,3,5) uw by (intro exI [of _ st'] exI [of _ w]) (simp add: c)
qed

lemma persist_unit_frame:
  "pendingRequests (fst (persist_unit c count i w st)) = pendingRequests st"
  "totalWalletRequests (fst (persist_unit c count i w st)) = totalWalletRequests st"
  by (cases "walletFiles st c"; cases "usageData st c";
      simp add: persist_unit_def sendMessageWithHeader_def send_def Let_def)+

lemma unit_step_frame:
  assumes "unit_step c count referralCode tps env i st created = Inl (st', cr, th)
         \<or> unit_step c count referralCode tps env i st created = Inr (st', cr)"
  shows "(cancelled st t \<longrightarrow> cancelled st' t)
       \<and> totalWalletRequests st' = totalWalletRequests st"
proof -
  let ?st1 = "admin_cancels (e_cancels_before env i) st"
  let ?w0 = "(createWallet (e_keys (e_units env i)))\<lparr>topics := tps\<rparr>"
  obtain w lg where rc: "register_and_chat ?w0 referralCode (e_units env i) = (w, lg, Inr ())"
    using register_and_chat_returns by blast
  let ?st2 = "admin_cancels (e_cancels_during env i) (?st1\<lparr>console := console ?st1 @ lg\<rparr>)"
  obtain st3 threw where p: "persist_unit c count i w ?st2 = (st3, threw)"
    by (cases "persist_unit c count i w ?st2")
  have f3: "pendingRequests st3 = pendingRequests ?st2"
    "totalWalletRequests st3 = totalWalletRequests ?st2"
    using persist_unit_frame [of c count i w ?st2] p by simp_all
  have c3: "cancelled st3 t = cancelled ?st2 t" using f3(1) by (simp add: cancelled_def)
  consider (a) "cancelled ?st1 c" | (b) "\<not> cancelled ?st1 c" "length referralCode \<noteq> 6"
    | (d) "\<not> cancelled ?st1 c" "length referralCode = 6"
    by blast
  then show ?thesis
  proof cases
    case a
    with assms have "st' = send c CancelledByAdmin ?st1"
      by (auto simp add: unit_step_def Let_def)
    then show ?thesis by simp
  next
    case b
    with assms have "st' = send c ReferralRejected ?st1"
      by (auto simp add: unit_step_def Let_def)
    then show ?thesis by simp
  next
    case d
    with assms have "st' = st3"
      by (auto simp add: unit_step_def Let_def rc p split: if_splits)
    then show ?thesis using c3 f3(2) by simp
  qed
qed

lemma units_loop_frame:
  "units_loop c count referralCode tps env i st created = (st', cr, th) \<Longrightarrow>
     (cancelled st t \<longrightarrow> cancelled st' t) \<and> totalWalletRequests st' = totalWalletRequests st"
proof (induction c count referralCode tps env i st created rule: units_loop.induct)
  case (1 c count referralCode tps env i st created)
  show ?case
  proof (cases "int i < count")
    case False
    with "1.prems" show ?thesis by (simp add: units_loop.simps [of c count referralCode tps env i])
  next
    case True
    show ?thesis
    proof (cases "unit_step c count referralCode tps env i st created")
      case (Inl r)
      with "1.prems" True have "unit_step c count referralCode tps env i st created = Inl (st', cr, th)"
        by (simp add: units_loop.simps [of c count referralCode tps env i])
      then show ?thesis using unit_step_frame by blast
    next
      case (Inr p)
      obtain st1 cr1 where p: "p = (st1, cr1)" by (cases p)
      from Inr p "1.prems" True
      have rec: "units_loop c count referralCode tps env (i + 1) st1 cr1 = (st', cr, th)"
        by (simp add: units_loop.simps [of c count referralCode tps env i])
      from "1.IH" [OF True Inr [unfolded p] refl rec]
      have ih: "(cancelled st1 t \<longrightarrow> cancelled st' t)
          \<and> totalWalletRequests st' = totalWalletRequests st1" .
      from unit_step_frame [where t = t, OF disjI2 [OF Inr [unfolded p]]]
      have "(cancelled st t \<longrightarrow> cancelled st1 t)
          \<and> totalWalletRequests st1 = totalWalletRequests st" by simp
      with ih show ?thesis by simp
    qed
  qed
qed

lemma units_loop_progress:
  assumes "length referralCode = 6" and "usageData st c = Some r"
    and "\<forall>k<n. \<not> flag_seen st env c k" and "int n \<le> count"
  shows "\<exists>st' ws. units_loop c count referralCode tps env 0 st []
              = units_loop c count referralCode tps env n st' ws
     \<and> ws = map (\<lambda>k. unit_wallet tps referralCode (e_units env k)) [0..<n]
     \<and> length ws = n
     \<and> usageData st' c = Some (r\<lparr>u_count := u_count r + int n\<rparr>)
     \<and> (0 < n \<longrightarrow> usageFile st' = usageData st')
     \<and> walletFiles st' c =
          (if n = 0 then walletFiles st c else Stored (stored_wallets (walletFiles st c) @ ws))
     \<and> (\<forall>t. cancelled st' t = (cancelled st t
            \<or> (\<exists>k<n. t \<in> set (e_cancels_before env k) \<or> t \<in> set (e_cancels_during env k))))"
  using assms(3,4)
proof (induction n)
  case 0
  show ?case using assms(2) by (intro exI [of _ st] exI [of _ "[]"]) simp
next
  case (Suc n)
  from Suc.prems have "\<forall>k<n. \<not> flag_seen st env c k" and "int n \<le> count" by simp_all
  from Suc.IH [OF this] obtain st1 ws where
    eq: "units_loop c count referralCode tps env 0 st []
           = units_loop c count referralCode tps env n st1 ws"
    and mp: "ws = map (\<lambda>k. unit_wallet tps referralCode (e_units env k)) [0..<n]"
    and len: "length ws = n"
    and us: "usageData st1 c = Some (r\<lparr>u_count := u_count r + int n\<rparr>)"
    and wf: "walletFiles st1 c =
          (if n = 0 then walletFiles st c else Stored (stored_wallets (walletFiles st c) @ ws))"
    and fl: "\<forall>t. cancelled st1 t = (cancelled st t
            \<or> (\<exists>k<n. t \<in> set (e_cancels_before env k) \<or> t \<in> set (e_cancels_during env k)))"
    by blast
  from Suc.prems(1) have ns: "\<not> flag_seen st env c n" by simp
  then have nc: "\<not> cancelled st1 c" and nb: "c \<notin> set (e_cancels_before env n)"
    unfolding flag_seen_iff fl [rule_format] by auto
  from Suc.prems(2) have lt: "int n < count" by simp
  from unit_step_produces [OF nc nb assms(1) us, of count tps ws] obtain st2 w where
    step: "unit_step c count referralCode tps env n st1 ws = Inr (st2, ws @ [w])"
    and uw: "w = unit_wallet tps referralCode (e_units env n)"
    and f: "usageData st2 = (usageData st1)(c \<mapsto> r\<lparr>u_count := u_count r + int n\<rparr>\<lparr>u_count := u_count (r\<lparr>u_count := u_count r + int n\<rparr>) + 1\<rparr>)"
      "usageFile st2 = usageData st2"
      "walletFiles st2 = (walletFiles st1)(c := Stored (stored_wallets (walletFiles st1 c) @ [w]))"
      "\<forall>t. cancelled st2 t = (cancelled st1 t \<or> t \<in> set (e_cancels_before env n)
                                 \<or> t \<in> set (e_cancels_during env n))"
    by blast
  have eq2: "units_loop c count referralCode tps env n st1 ws
           = units_loop c count referralCode tps env (Suc n) st2 (ws @ [w])"
    using lt step by (subst units_loop.simps) simp
  have u2: "usageData st2 c = Some (r\<lparr>u_count := u_count r + int (Suc n)\<rparr>)"
    unfolding f(1) by (simp add: add.assoc)
  have w2: "walletFiles st2 c = Stored (stored_wallets (walletFiles st c) @ (ws @ [w]))"
    unfolding f(3) wf using len by (auto simp add: stored_wallets_def)
  have c2: "\<forall>t. cancelled st2 t = (cancelled st t
            \<or> (\<exists>k<Suc n. t \<in> set (e_cancels_before env k) \<or> t \<in> set (e_cancels_during env k)))"
    unfolding f(4) [rule_format] fl [rule_format] by (auto simp add: less_Suc_eq)
  have m2: "ws @ [w] = map (\<lambda>k. unit_wallet tps referralCode (e_units env k)) [0..<Suc n]"
    using mp uw by simp
  show ?case
    using eq eq2 len u2 w2 c2 f(2) m2
    by (intro exI [of _ st2] exI [of _ "ws @ [w]"]) simp
qed

lemma reset_day_frame [simp]:
  "usageFile (reset_day c today st) = usageFile st"
  "walletFiles (reset_day c today st) = walletFiles st"
  "pendingRequests (reset_day c today st) = pendingRequests st"
  "totalWalletRequests (reset_day c today st) = totalWalletRequests st"
  "maxLimit (reset_day c today st) = maxLimit st"
  "outbox (reset_day c today st) = outbox st"
  by (simp_all add: reset_day_def split: option.splits)

lemma reset_day_usage:
  "usageData (reset_day c today st) c
     = Some \<lparr>u_date = today, u_count = same_day_count st c today\<rparr>"
  by (simp add: reset_day_def same_day_count_def split: option.splits)

lemma reset_day_same:
  "usageData st c = Some r \<Longrightarrow> u_date r = today \<Longrightarrow> reset_day c today st = st"
  by (simp add: reset_day_def)

lemma reset_day_stale:
  "usageData st c = Some r \<Longrightarrow> u_date r \<noteq> today \<Longrightarrow>
     reset_day c today st = st\<lparr>usageData := (usageData st)(c \<mapsto> \<lparr>u_date = today, u_count = 0\<rparr>)\<rparr>"
  by (simp add: reset_day_def)

lemma log_error_frame [simp]:
  "usageData (log_error st) = usageData st"
  "usageFile (log_error st) = usageFile st"
  "walletFiles (log_error st) = walletFiles st"
  "pendingRequests (log_error st) = pendingRequests st"
  "totalWalletRequests (log_error st) = totalWalletRequests st"
  "outbox (log_error st) = outbox st"
  by (simp_all add: log_error_def)

lemma send_summary_frame [simp]:
  "usageData (send_summary c n st) = usageData st"
  "usageFile (send_summary c n st) = usageFile st"
  "walletFiles (send_summary c n st) = walletFiles st"
  "pendingRequests (send_summary c n st) = pendingRequests st"
  "totalWalletRequests (send_summary c n st) = totalWalletRequests st"
  by (simp_all add: send_summary_def Let_def split: wallet_file.splits)

lemma send_summary_outbox:
  "\<exists>d. outbox (send_summary c n st) = outbox st @ [(c, Processed n), (c, d)]"
  by (cases "walletFiles st c") (simp_all add: send_summary_def Let_def)

lemma processUserRequest_denied:
  assumes "same_day_count st c (e_today env) + count > maxLimit st"
  shows "processUserRequest c count referralCode tps env st =
     (send c (DailyLimitReached (same_day_count st c (e_today env)) (maxLimit st))
        (reset_day c (e_today env) st), [])"
  using assms by (simp add: processUserRequest_def Let_def reset_day_usage)

lemma processUserRequest_granted:
  assumes "same_day_count st c (e_today env) + count \<le> maxLimit st"
  shows "processUserRequest c count referralCode tps env st =
     (case units_loop c count referralCode tps env 0
            ((reset_day c (e_today env) st)
               \<lparr>totalWalletRequests := totalWalletRequests st + count\<rparr>) [] of
        (st3, created, threw) \<Rightarrow>
          if threw then (log_error st3, created)
          else (send_summary c (length created) st3, created))"
  using assms by (simp add: processUserRequest_def Let_def reset_day_usage)

lemma processUserRequest_granted_stats:
  assumes "same_day_count st c (e_today env) + count \<le> maxLimit st"
    and "processUserRequest c count referralCode tps env st = (st', created)"
  shows "totalWalletRequests st' = totalWalletRequests st + count"
proof -
  let ?st2 = "(reset_day c (e_today env) st)\<lparr>totalWalletRequests := totalWalletRequests st + count\<rparr>"
  obtain st3 cr th where l: "units_loop c count referralCode tps env 0 ?st2 [] = (st3, cr, th)"
    by (cases "units_loop c count referralCode tps env 0 ?st2 []" rule: prod_cases3)
  from units_loop_frame [OF l] have "totalWalletRequests st3 = totalWalletRequests st + count"
    by simp
  moreover from assms(2) have "st' = (if th then log_error st3 else send_summary c (length cr) st3)"
    unfolding processUserRequest_granted [OF assms(1)] l by (auto split: if_splits)
  ultimately show ?thesis by simp
qed

text \<open>
  Claim C1, as amended. For every actor, requested amount \<open>A\<close> and ceiling \<open>C\<close>, the
  request is granted (the request counter grows by \<open>A\<close> and the loop is entered) when
  the actor's same-day count plus \<open>A\<close> is at most \<open>C\<close>, and denied otherwise. On denial
  nothing but the denial message follows the day check: no identity is created, the
  wallet files and the saved usage file are untouched, and the message carries the
  actor's same-day count. The quota record is as the day check leaves it: unchanged
  when it is dated today, and otherwise replaced by a record of today with count 0.
\<close>

theorem C1_quota_gate:
  assumes "processUserRequest c count referralCode tps env st = (st', created)"
  shows "(same_day_count st c (e_today env) + count \<le> maxLimit st \<longrightarrow>
            totalWalletRequests st' = totalWalletRequests st + count
          \<and> (st', created) =
               (case units_loop c count referralCode tps env 0
                      ((reset_day c (e_today env) st)
                         \<lparr>totalWalletRequests := totalWalletRequests st + count\<rparr>) [] of
                  (st3, made, threw) \<Rightarrow>
                    if threw then (log_error st3, made)
                    else (send_summary c (length made) st3, made)))
       \<and> (same_day_count st c (e_today env) + count > maxLimit st \<longrightarrow>
            created = []
          \<and> st' = send c (DailyLimitReached (same_day_count st c (e_today env)) (maxLimit st))
                     (reset_day c (e_today env) st)
          \<and> totalWalletRequests st' = totalWalletRequests st
          \<and> walletFiles st' = walletFiles st
          \<and> usageFile st' = usageFile st
          \<and> usageData st' = usageData (reset_day c (e_today env) st)
          \<and> (case usageData st c of
                None \<Rightarrow> True
              | Some r \<Rightarrow> u_date r \<noteq> e_today env \<or> usageData st' = usageData st))"
proof (intro conjI impI)
  assume g: "same_day_count st c (e_today env) + count \<le> maxLimit st"
  then show "totalWalletRequests st' = totalWalletRequests st + count"
    using assms by (rule processUserRequest_granted_stats)
  show "(st', created) =
               (case units_loop c count referralCode tps env 0
                      ((reset_day c (e_today env) st)
                         \<lparr>totalWalletRequests := totalWalletRequests st + count\<rparr>) [] of
                  (st3, made, threw) \<Rightarrow>
                    if threw then (log_error st3, made)
                    else (send_summary c (length made) st3, made))"
    using processUserRequest_granted [OF g, of referralCode tps] assms by simp
next
  assume d: "same_day_count st c (e_today env) + count > maxLimit st"
  from assms processUserRequest_denied [OF d, of referralCode tps]
  have r: "created = []"
    "st' = send c (DailyLimitReached (same_day_count st c (e_today env)) (maxLimit st))
             (reset_day c (e_today env) st)"
    by simp_all
  show "created = []" by (rule r(1))
  show "st' = send c (DailyLimitReached (same_day_count st c (e_today env)) (maxLimit st))
             (reset_day c (e_today env) st)" by (rule r(2))
  show "totalWalletRequests st' = totalWalletRequests st" unfolding r(2) by simp
  show "walletFiles st' = walletFiles st" unfolding r(2) by simp
  show "usageFile st' = usageFile st" unfolding r(2) by simp
  show "usageData st' = usageData (reset_day c (e_today env) st)" unfolding r(2) by simp
  show "case usageData st c of
          None \<Rightarrow> True
        | Some r \<Rightarrow> u_date r \<noteq> e_today env \<or> usageData st' = usageData st"
    unfolding r(2) by (auto simp add: reset_day_same split: option.splits)
qed

theorem C1_witness:
  "same_day_count quota_bot 7 (e_today env_day2) + 5 > maxLimit quota_bot
   \<and> snd (processUserRequest 7 5 ''ABCDEF'' [''t1''] env_day2 quota_bot) = []
   \<and> usageData (fst (processUserRequest 7 5 ''ABCDEF'' [''t1''] env_day2 quota_bot))
       = usageData quota_bot
   \<and> same_day_count quota_bot 7 (e_today env_day2) + 2 \<le> maxLimit quota_bot
   \<and> totalWalletRequests (fst (processUserRequest 7 2 ''ABCDEF'' [''t1''] env_day2 quota_bot)) = 2"
proof -
  have u: "usageData quota_bot 7 = Some \<lparr>u_date = ''2026-01-02'', u_count = 8\<rparr>"
    "maxLimit quota_bot = 10" "totalWalletRequests quota_bot = 0"
    "e_today env_day2 = ''2026-01-02''"
    by (simp_all add: quota_bot_def start_bot_def env_day2_def)
  have s: "same_day_count quota_bot 7 ''2026-01-02'' = 8"
    by (simp add: same_day_count_def u)
  from C1_quota_gate [of 7 5 "''ABCDEF''" "[''t1'']" env_day2 quota_bot
      "fst (processUserRequest 7 5 ''ABCDEF'' [''t1''] env_day2 quota_bot)"
      "snd (processUserRequest 7 5 ''ABCDEF'' [''t1''] env_day2 quota_bot)"]
    C1_quota_gate [of 7 2 "''ABCDEF''" "[''t1'']" env_day2 quota_bot
      "fst (processUserRequest 7 2 ''ABCDEF'' [''t1''] env_day2 quota_bot)"
      "snd (processUserRequest 7 2 ''ABCDEF'' [''t1''] env_day2 quota_bot)"]
  show ?thesis by (auto simp add: s u)
qed

text \<open>
  Claim C1 as stated fails where it says that a denial does not mutate the record. The
  actor 7 has a record of the previous day with count 8 and asks for 5 identities
  under the ceiling 100; the admin lowers the ceiling to 3 before the request starts.
  The request is denied with the used count 0, and the actor's record has become a
  record of today with count 0.
\<close>

theorem C1_denial_replaces_stale_record:
  "jobs (run stale_bot lowered_limit)
     = [\<lparr>job_actor = 7, job_count = 5, job_referral = ''ABCDEF'', job_topics = [''t1'']\<rparr>]
   \<and> maxLimit (run stale_bot lowered_limit) = 3
   \<and> usageData (run stale_bot lowered_limit) 7 = Some \<lparr>u_date = ''2026-01-01'', u_count = 8\<rparr>
   \<and> snd (processUserRequest 7 5 ''ABCDEF'' [''t1''] env_day2 (run stale_bot lowered_limit)) = []
   \<and> last (outbox (fst (processUserRequest 7 5 ''ABCDEF'' [''t1''] env_day2
                          (run stale_bot lowered_limit)))) = (7, DailyLimitReached 0 3)
   \<and> usageData (fst (processUserRequest 7 5 ''ABCDEF'' [''t1''] env_day2
                        (run stale_bot lowered_limit))) 7
       = Some \<lparr>u_date = ''2026-01-02'', u_count = 0\<rparr>"
proof -
  have j: "jobs (run stale_bot lowered_limit)
     = [\<lparr>job_actor = 7, job_count = 5, job_referral = ''ABCDEF'', job_topics = [''t1'']\<rparr>]"
    and m: "maxLimit (run stale_bot lowered_limit) = 3"
    and u: "usageData (run stale_bot lowered_limit) 7 = Some \<lparr>u_date = ''2026-01-01'', u_count = 8\<rparr>"
    by (simp_all add: run_def lowered_limit_def stale_bot_def start_bot_def on_message_def
        on_callback_def prompt_stage_def set_idle_def user_message_def admin_pending_def
        handleStart_def send_def extra_lines_def parseInt_def parse_radix_def digit_of_def
        is_space_def trim_def Let_def)
  have t: "e_today env_day2 = ''2026-01-02''" by (simp add: env_day2_def)
  have s: "same_day_count (run stale_bot lowered_limit) 7 ''2026-01-02'' = 0"
    by (simp add: same_day_count_def u)
  have d: "same_day_count (run stale_bot lowered_limit) 7 (e_today env_day2) + 5
             > maxLimit (run stale_bot lowered_limit)"
    by (simp add: s m t)
  show ?thesis
    unfolding processUserRequest_denied [OF d]
    using j m u reset_day_usage [of 7 "''2026-01-02''" "run stale_bot lowered_limit"]
    by (simp add: s t)
qed

lemma registerWallet_keeps:
  "chats (fst (registerWallet w referralCode env)) = chats w"
  "address (fst (registerWallet w referralCode env)) = address w"
  "topics (fst (registerWallet w referralCode env)) = topics w"
  unfolding registerWallet_def registerWallet_try_def
  by (auto simp: Let_def split: outcome.splits connect_body.splits info_body.splits)

lemma registerWallet_token:
  "handshake_succeeds env \<Longrightarrow> truthy (jwt (fst (registerWallet w referralCode env)))"
  unfolding registerWallet_def registerWallet_try_def handshake_succeeds_def lacks_token_def
  by (auto simp: Let_def split: outcome.splits connect_body.splits info_body.splits)

lemma performChat_keeps:
  "registered (fst (performChat w i e)) = registered w"
  "address (fst (performChat w i e)) = address w"
  "topics (fst (performChat w i e)) = topics w"
  by (auto simp add: performChat_def getRandomTopic_def Let_def
      split: prod.splits outcome.splits if_splits)

lemma chat_turns_keeps:
  "chat_turns i w env = (w', lg) \<Longrightarrow>
     registered w' = registered w \<and> address w' = address w \<and> topics w' = topics w"
proof (induction i w env arbitrary: w' lg rule: chat_turns.induct)
  case (1 i w env)
  show ?case
  proof (cases "i < 5")
    case False
    with "1.prems" show ?thesis by (auto simp add: chat_turns.simps [of i w env])
  next
    case True
    obtain w1 lg1 ok where pc: "performChat w i (env i) = (w1, lg1, ok)"
      by (cases "performChat w i (env i)" rule: prod_cases3)
    have k1: "registered w1 = registered w" "address w1 = address w" "topics w1 = topics w"
      using performChat_keeps [of w i "env i"] pc by simp_all
    show ?thesis
    proof (cases ok)
      case False
      from chat_turns_unfold [of i w env, OF True pc] False
      have "chat_turns i w env = (w1, lg1 @ [ChatStopped (address w1)])" by simp
      with "1.prems" have "w' = w1" by auto
      with k1 show ?thesis by simp
    next
      case yes: True
      obtain w2 lg2 where rec: "chat_turns (i + 1) w1 env = (w2, lg2)"
        by (cases "chat_turns (i + 1) w1 env")
      from chat_turns_unfold [of i w env, OF True pc] yes rec
      have "chat_turns i w env = (w2, lg1 @ lg2)" by simp
      with "1.prems" have res: "w' = w2" by auto
      have "registered w2 = registered w1 \<and> address w2 = address w1 \<and> topics w2 = topics w1"
        using "1.IH" [OF True pc [symmetric] refl _ rec] yes by simp
      with k1 res show ?thesis by simp
    qed
  qed
qed

lemma good_turns_eq:
  "truthy (jwt w) \<Longrightarrow> successful_turns w ce = good_turns ce"
  by (simp add: successful_turns_def good_turns_def turn_succeeds_def)

lemma unit_wallet_facts:
  "registered (unit_wallet tps referralCode ue) = handshake_succeeds (e_reg ue)"
  "chats (unit_wallet tps referralCode ue)
     = (if handshake_succeeds (e_reg ue) then int (good_turns (e_chat ue)) else 0)"
  "address (unit_wallet tps referralCode ue) = fst (e_keys ue)"
  "topics (unit_wallet tps referralCode ue) = tps"
proof -
  let ?w0 = "(createWallet (e_keys ue))\<lparr>topics := tps\<rparr>"
  have f0: "\<not> registered ?w0" "chats ?w0 = 0" "address ?w0 = fst (e_keys ue)" "topics ?w0 = tps"
    by (simp_all add: createWallet_def split: prod.splits)
  obtain w1 lg r where rw: "registerWallet ?w0 referralCode (e_reg ue) = (w1, lg, r)"
    by (cases "registerWallet ?w0 referralCode (e_reg ue)" rule: prod_cases3)
  have r: "r = Inr (handshake_succeeds (e_reg ue))"
    using registerWallet_result_iff [of ?w0 referralCode "e_reg ue"] rw by simp
  have g1: "registered w1 = handshake_succeeds (e_reg ue)"
    using registerWallet_registered_iff [of ?w0 referralCode "e_reg ue"] rw f0(1) by simp
  have k1: "chats w1 = 0" "address w1 = fst (e_keys ue)" "topics w1 = tps"
    using registerWallet_keeps [of ?w0 referralCode "e_reg ue"] rw f0 by simp_all
  have all: "registered (unit_wallet tps referralCode ue) = handshake_succeeds (e_reg ue)
      \<and> chats (unit_wallet tps referralCode ue)
           = (if handshake_succeeds (e_reg ue) then int (good_turns (e_chat ue)) else 0)
      \<and> address (unit_wallet tps referralCode ue) = fst (e_keys ue)
      \<and> topics (unit_wallet tps referralCode ue) = tps"
  proof (cases "handshake_succeeds (e_reg ue)")
    case False
    then have "unit_wallet tps referralCode ue = w1"
      by (simp add: unit_wallet_def register_and_chat_def rw r)
    with False g1 k1 show ?thesis by simp
  next
    case True
    obtain w2 lg2 where ct: "chat_turns 0 w1 (e_chat ue) = (w2, lg2)"
      by (cases "chat_turns 0 w1 (e_chat ue)")
    have uw: "unit_wallet tps referralCode ue = w2"
      using True by (simp add: unit_wallet_def register_and_chat_def rw r completeDailyChats_def ct)
    have tok: "truthy (jwt w1)"
      using registerWallet_token [OF True, of ?w0 referralCode] rw by simp
    from chat_turns_spec [OF ct] have "chats w2 = chats w1 + int (successful_turns w1 (e_chat ue))"
      by (simp add: successful_turns_def)
    then have c2: "chats w2 = int (good_turns (e_chat ue))"
      using k1(1) good_turns_eq [OF tok] by simp
    from chat_turns_keeps [OF ct] g1 k1 True c2
    show ?thesis unfolding uw by simp
  qed
  from all show "registered (unit_wallet tps referralCode ue) = handshake_succeeds (e_reg ue)"
    "chats (unit_wallet tps referralCode ue)
       = (if handshake_succeeds (e_reg ue) then int (good_turns (e_chat ue)) else 0)"
    "address (unit_wallet tps referralCode ue) = fst (e_keys ue)"
    "topics (unit_wallet tps referralCode ue) = tps"
    by simp_all
qed

lemma units_loop_cancel_at:
  assumes "length referralCode = 6" and "usageData st c = Some r" and "int i < count"
    and "flag_seen st env c i" and "\<forall>k<i. \<not> flag_seen st env c k"
  shows "\<exists>st' ws. units_loop c count referralCode tps env 0 st []
              = (send c CancelledByAdmin st', ws, False)
     \<and> ws = map (\<lambda>k. unit_wallet tps referralCode (e_units env k)) [0..<i]
     \<and> length ws = i
     \<and> usageData st' c = Some (r\<lparr>u_count := u_count r + int i\<rparr>)
     \<and> walletFiles st' c =
          (if i = 0 then walletFiles st c else Stored (stored_wallets (walletFiles st c) @ ws))"
proof -
  from assms(3) have le: "int i \<le> count" by simp
  from units_loop_progress [OF assms(1,2,5) le, of tps] obtain st1 ws where
    eq: "units_loop c count referralCode tps env 0 st []
           = units_loop c count referralCode tps env i st1 ws"
    and mp: "ws = map (\<lambda>k. unit_wallet tps referralCode (e_units env k)) [0..<i]"
    and len: "length ws = i"
    and us: "usageData st1 c = Some (r\<lparr>u_count := u_count r + int i\<rparr>)"
    and wf: "walletFiles st1 c =
          (if i = 0 then walletFiles st c else Stored (stored_wallets (walletFiles st c) @ ws))"
    and fl: "\<forall>t. cancelled st1 t = (cancelled st t
            \<or> (\<exists>k<i. t \<in> set (e_cancels_before env k) \<or> t \<in> set (e_cancels_during env k)))"
    by blast
  from assms(4) have seen: "cancelled st1 c \<or> c \<in> set (e_cancels_before env i)"
    unfolding flag_seen_iff fl [rule_format] by (auto simp add: le_less)
  have "units_loop c count referralCode tps env i st1 ws
          = (send c CancelledByAdmin (admin_cancels (e_cancels_before env i) st1), ws, False)"
    using assms(3) unit_step_cancelled [OF seen, of count referralCode tps ws]
    by (subst units_loop.simps) simp
  with eq mp len us wf show ?thesis
    by (intro exI [of _ "admin_cancels (e_cancels_before env i) st1"] exI [of _ ws]) simp
qed

lemma units_loop_complete:
  assumes "length referralCode = 6" and "usageData st c = Some r"
    and "\<forall>k<nat count. \<not> flag_seen st env c k"
  shows "\<exists>st' ws. units_loop c count referralCode tps env 0 st [] = (st', ws, False)
     \<and> ws = map (\<lambda>k. unit_wallet tps referralCode (e_units env k)) [0..<nat count]
     \<and> length ws = nat count
     \<and> usageData st' c = Some (r\<lparr>u_count := u_count r + int (nat count)\<rparr>)
     \<and> walletFiles st' c =
          (if nat count = 0 then walletFiles st c
           else Stored (stored_wallets (walletFiles st c) @ ws))"
proof (cases "0 \<le> count")
  case False
  then have "units_loop c count referralCode tps env 0 st [] = (st, [], False)"
    by (subst units_loop.simps) simp
  with False assms(2) show ?thesis by simp
next
  case True
  then have le: "int (nat count) \<le> count" by simp
  from units_loop_progress [OF assms(1,2,3) le, of tps] obtain st1 ws where
    eq: "units_loop c count referralCode tps env 0 st []
           = units_loop c count referralCode tps env (nat count) st1 ws"
    and mp: "ws = map (\<lambda>k. unit_wallet tps referralCode (e_units env k)) [0..<nat count]"
    and len: "length ws = nat count"
    and us: "usageData st1 c = Some (r\<lparr>u_count := u_count r + int (nat count)\<rparr>)"
    and wf: "walletFiles st1 c =
          (if nat count = 0 then walletFiles st c
           else Stored (stored_wallets (walletFiles st c) @ ws))"
    by blast
  have "units_loop c count referralCode tps env (nat count) st1 ws = (st1, ws, False)"
    using True by (subst units_loop.simps) simp
  with eq mp len us wf show ?thesis by simp
qed

lemma unit_step_usage:
  assumes "usageData st c = Some r"
  shows "(unit_step c count referralCode tps env i st created = Inl (st', cr, th) \<longrightarrow>
            usageData st' c = Some r \<and> cr = created \<and> \<not> th)
       \<and> (unit_step c count referralCode tps env i st created = Inr (st', cr) \<longrightarrow>
            usageData st' c = Some (r\<lparr>u_count := u_count r + 1\<rparr>)
          \<and> length cr = length created + 1)"
proof -
  let ?st1 = "admin_cancels (e_cancels_before env i) st"
  let ?w0 = "(createWallet (e_keys (e_units env i)))\<lparr>topics := tps\<rparr>"
  obtain w lg where rc: "register_and_chat ?w0 referralCode (e_units env i) = (w, lg, Inr ())"
    using register_and_chat_returns by blast
  let ?st2 = "admin_cancels (e_cancels_during env i) (?st1\<lparr>console := console ?st1 @ lg\<rparr>)"
  have u2: "usageData ?st2 c = Some r" using assms by simp
  from persist_unit_ok [OF u2, of count i w] obtain st3 where
    p: "persist_unit c count i w ?st2 = (st3, False)"
    and f: "usageData st3 = (usageData ?st2)(c \<mapsto> r\<lparr>u_count := u_count r + 1\<rparr>)"
    by blast
  have u3: "usageData st3 c = Some (r\<lparr>u_count := u_count r + 1\<rparr>)"
    unfolding f by simp
  consider (a) "cancelled ?st1 c" | (b) "\<not> cancelled ?st1 c" "length referralCode \<noteq> 6"
    | (d) "\<not> cancelled ?st1 c" "length referralCode = 6"
    by blast
  then show ?thesis
  proof cases
    case a
    then have "unit_step c count referralCode tps env i st created
                 = Inl (send c CancelledByAdmin ?st1, created, False)"
      by (simp add: unit_step_def Let_def)
    then show ?thesis using assms by auto
  next
    case b
    then have "unit_step c count referralCode tps env i st created
                 = Inl (send c ReferralRejected ?st1, created, False)"
      by (simp add: unit_step_def Let_def)
    then show ?thesis using assms by auto
  next
    case d
    then have "unit_step c count referralCode tps env i st created = Inr (st3, created @ [w])"
      by (simp add: unit_step_def Let_def rc p)
    then show ?thesis using u3 by auto
  qed
qed

lemma units_loop_usage:
  "usageData st c = Some r \<Longrightarrow>
   units_loop c count referralCode tps env i st created = (st', cr, th) \<Longrightarrow>
     usageData st' c = Some (r\<lparr>u_count := u_count r + (int (length cr) - int (length created))\<rparr>)
   \<and> \<not> th"
proof (induction c count referralCode tps env i st created arbitrary: r
       rule: units_loop.induct)
  case (1 c count referralCode tps env i st created)
  show ?case
  proof (cases "int i < count")
    case False
    with "1.prems" show ?thesis
      by (auto simp add: units_loop.simps [of c count referralCode tps env i])
  next
    case True
    show ?thesis
    proof (cases "unit_step c count referralCode tps env i st created")
      case (Inl x)
      with "1.prems"(2) True
      have "unit_step c count referralCode tps env i st created = Inl (st', cr, th)"
        by (simp add: units_loop.simps [of c count referralCode tps env i])
      with unit_step_usage [OF "1.prems"(1), of count referralCode tps env i created st' cr th]
      show ?thesis using "1.prems"(1) by auto
    next
      case (Inr p)
      obtain st1 cr1 where p: "p = (st1, cr1)" by (cases p)
      from Inr p "1.prems"(2) True
      have rec: "units_loop c count referralCode tps env (i + 1) st1 cr1 = (st', cr, th)"
        by (simp add: units_loop.simps [of c count referralCode tps env i])
      from unit_step_usage [OF "1.prems"(1), of count referralCode tps env i created st1 cr1]
        Inr p
      have s1: "usageData st1 c = Some (r\<lparr>u_count := u_count r + 1\<rparr>)"
        and l1: "length cr1 = length created + 1" by simp_all
      from "1.IH" [OF True Inr [unfolded p] refl s1 rec]
      have "usageData st' c = Some (r\<lparr>u_count := u_count r + 1\<rparr>
              \<lparr>u_count := u_count (r\<lparr>u_count := u_count r + 1\<rparr>)
                 + (int (length cr) - int (length cr1))\<rparr>) \<and> \<not> th" .
      then show ?thesis using l1 by simp
    qed
  qed
qed

lemma processUserRequest_usage:
  assumes "same_day_count st c (e_today env) + count \<le> maxLimit st"
    and "processUserRequest c count referralCode tps env st = (st', created)"
  shows "usageData st' c = Some \<lparr>u_date = e_today env,
           u_count = same_day_count st c (e_today env) + int (length created)\<rparr>"
proof -
  let ?st2 = "(reset_day c (e_today env) st)\<lparr>totalWalletRequests := totalWalletRequests st + count\<rparr>"
  let ?r = "\<lparr>u_date = e_today env, u_count = same_day_count st c (e_today env)\<rparr>"
  have us: "usageData ?st2 c = Some ?r" by (simp add: reset_day_usage)
  obtain st3 cr th where l: "units_loop c count referralCode tps env 0 ?st2 [] = (st3, cr, th)"
    by (cases "units_loop c count referralCode tps env 0 ?st2 []" rule: prod_cases3)
  from units_loop_usage [OF us l]
  have u3: "usageData st3 c = Some (?r\<lparr>u_count := u_count ?r + int (length cr)\<rparr>)" and nt: "\<not> th"
    by simp_all
  from assms(2) nt have "st' = send_summary c (length cr) st3" "created = cr"
    unfolding processUserRequest_granted [OF assms(1)] l by auto
  with u3 show ?thesis by simp
qed

lemma processUserRequest_all_units:
  assumes "length referralCode = 6"
    and "same_day_count st c (e_today env) + count \<le> maxLimit st"
    and "\<forall>k<nat count. \<not> flag_seen st env c k"
  shows "snd (processUserRequest c count referralCode tps env st)
           = map (\<lambda>k. unit_wallet tps referralCode (e_units env k)) [0..<nat count]"
proof -
  let ?st2 = "(reset_day c (e_today env) st)\<lparr>totalWalletRequests := totalWalletRequests st + count\<rparr>"
  let ?r = "\<lparr>u_date = e_today env, u_count = same_day_count st c (e_today env)\<rparr>"
  have us: "usageData ?st2 c = Some ?r" by (simp add: reset_day_usage)
  have fs: "\<And>k. flag_seen ?st2 env c k = flag_seen st env c k"
    by (rule flag_seen_cong) simp
  from assms(3) have a': "\<forall>k<nat count. \<not> flag_seen ?st2 env c k" by (simp add: fs)
  from units_loop_complete [OF assms(1) us a', of tps] obtain st3 ws where
    l: "units_loop c count referralCode tps env 0 ?st2 [] = (st3, ws, False)"
    and mp: "ws = map (\<lambda>k. unit_wallet tps referralCode (e_units env k)) [0..<nat count]"
    by blast
  show ?thesis
    unfolding processUserRequest_granted [OF assms(2)] l using mp by simp
qed

text \<open>
  Claim C2. For every actor, when the stored record's date differs from the current
  calendar day at the quota check, the record is replaced by one of today with count
  0 before the comparison: the request is compared as \<open>0 + count\<close> against the ceiling,
  whatever count the stored record held. A denied request leaves the record of today
  with count 0 in the store; a granted request runs on the replaced record, so that
  when it has settled the record carries today's date and counts exactly the wallets
  that the request created.
\<close>

theorem C2_day_reset:
  assumes "usageData st c = Some r" and "u_date r \<noteq> e_today env"
    and "processUserRequest c count referralCode tps env st = (st', created)"
  shows "usageData (reset_day c (e_today env) st) c = Some \<lparr>u_date = e_today env, u_count = 0\<rparr>
       \<and> (0 + count > maxLimit st \<longrightarrow>
            created = []
          \<and> st' = send c (DailyLimitReached 0 (maxLimit st))
                     (st\<lparr>usageData := (usageData st)(c \<mapsto> \<lparr>u_date = e_today env, u_count = 0\<rparr>)\<rparr>))
       \<and> (0 + count \<le> maxLimit st \<longrightarrow>
            totalWalletRequests st' = totalWalletRequests st + count
          \<and> usageData st' c = Some \<lparr>u_date = e_today env, u_count = int (length created)\<rparr>)"
proof -
  have z: "same_day_count st c (e_today env) = 0"
    using assms(1,2) by (simp add: same_day_count_def)
  show ?thesis
  proof (intro conjI impI)
    show "usageData (reset_day c (e_today env) st) c = Some \<lparr>u_date = e_today env, u_count = 0\<rparr>"
      using reset_day_usage [of c "e_today env" st] z by simp
  next
    assume "0 + count > maxLimit st"
    then have d: "same_day_count st c (e_today env) + count > maxLimit st" using z by simp
    from assms(3) processUserRequest_denied [OF d, of referralCode tps]
    show "created = []" by simp
    from assms(3) processUserRequest_denied [OF d, of referralCode tps]
    show "st' = send c (DailyLimitReached 0 (maxLimit st))
                     (st\<lparr>usageData := (usageData st)(c \<mapsto> \<lparr>u_date = e_today env, u_count = 0\<rparr>)\<rparr>)"
      unfolding z reset_day_stale [OF assms(1,2)] by simp
  next
    assume "0 + count \<le> maxLimit st"
    then have g: "same_day_count st c (e_today env) + count \<le> maxLimit st" using z by simp
    show "totalWalletRequests st' = totalWalletRequests st + count"
      using g assms(3) by (rule processUserRequest_granted_stats)
    show "usageData st' c = Some \<lparr>u_date = e_today env, u_count = int (length created)\<rparr>"
      using processUserRequest_usage [OF g assms(3)] z by simp
  qed
qed

theorem C2_witness:
  "usageData stale_bot 7 = Some \<lparr>u_date = ''2026-01-01'', u_count = 8\<rparr>
   \<and> ''2026-01-01'' \<noteq> e_today env_day2
   \<and> usageData (reset_day 7 (e_today env_day2) stale_bot) 7
       = Some \<lparr>u_date = ''2026-01-02'', u_count = 0\<rparr>
   \<and> 0 + 95 \<le> maxLimit stale_bot
   \<and> totalWalletRequests (fst (processUserRequest 7 95 ''ABCDEF'' [''t1''] env_day2 stale_bot)) = 95
   \<and> 0 + 1 \<le> maxLimit stale_bot
   \<and> length (snd (processUserRequest 7 1 ''ABCDEF'' [''t1''] env_day2 stale_bot)) = 1
   \<and> usageData (fst (processUserRequest 7 1 ''ABCDEF'' [''t1''] env_day2 stale_bot)) 7
       = Some \<lparr>u_date = ''2026-01-02'', u_count = 1\<rparr>
   \<and> 0 + 101 > maxLimit stale_bot
   \<and> snd (processUserRequest 7 101 ''ABCDEF'' [''t1''] env_day2 stale_bot) = []"
proof -
  have u: "usageData stale_bot 7 = Some \<lparr>u_date = ''2026-01-01'', u_count = 8\<rparr>"
    "maxLimit stale_bot = 100" "totalWalletRequests stale_bot = 0"
    by (simp_all add: stale_bot_def start_bot_def)
  have t: "e_today env_day2 = ''2026-01-02''" by (simp add: env_day2_def)
  have n: "u_date \<lparr>u_date = ''2026-01-01'', u_count = 8\<rparr> \<noteq> e_today env_day2"
    by (simp add: t)
  have q: "same_day_count stale_bot 7 (e_today env_day2) + 1 \<le> maxLimit stale_bot"
    by (simp add: same_day_count_def u t)
  have f: "\<forall>k<nat 1. \<not> flag_seen stale_bot env_day2 7 k"
    by (simp add: flag_seen_iff cancelled_def stale_bot_def start_bot_def env_day2_def)
  have l: "length (snd (processUserRequest 7 1 ''ABCDEF'' [''t1''] env_day2 stale_bot)) = 1"
    using processUserRequest_all_units [of "''ABCDEF''" stale_bot 7 env_day2 1 "[''t1'']", OF _ q f]
    by simp
  from C2_day_reset [OF u(1) n, of 95 "''ABCDEF''" "[''t1'']"
      "fst (processUserRequest 7 95 ''ABCDEF'' [''t1''] env_day2 stale_bot)"
      "snd (processUserRequest 7 95 ''ABCDEF'' [''t1''] env_day2 stale_bot)"]
    C2_day_reset [OF u(1) n, of 1 "''ABCDEF''" "[''t1'']"
      "fst (processUserRequest 7 1 ''ABCDEF'' [''t1''] env_day2 stale_bot)"
      "snd (processUserRequest 7 1 ''ABCDEF'' [''t1''] env_day2 stale_bot)"]
    C2_day_reset [OF u(1) n, of 101 "''ABCDEF''" "[''t1'']"
      "fst (processUserRequest 7 101 ''ABCDEF'' [''t1''] env_day2 stale_bot)"
      "snd (processUserRequest 7 101 ''ABCDEF'' [''t1''] env_day2 stale_bot)"]
    l
  show ?thesis by (simp add: u t)
qed

text \<open>
  Claim C4. For every job that passed the quota gate with a referral code of six
  characters: when the cancel flag of its actor is set at the check of unit \<open>i\<close> and was
  not set at the checks before, exactly the units \<open>0\<close> to \<open>i - 1\<close> are produced and
  persisted (the wallet file holds what it held followed by these \<open>i\<close> wallets, and the
  usage count has grown by \<open>i\<close>), and the run ends with the cancellation notice and the
  summary for \<open>i\<close> wallets. Each of these wallets is the fresh wallet of its unit after
  the whole unit: it is registered exactly when its handshake succeeded and then
  carries the chats of its conversation. A cancellation that arrives while unit
  \<open>i - 1\<close> registers or chats is first seen at the check of unit \<open>i\<close>, so that unit is
  completed and persisted like the others; one that is seen at no check, for instance
  because it arrives during the last unit, leaves all \<open>count\<close> units produced.
\<close>

theorem C4_cancellation_checkpoint:
  assumes "length referralCode = 6"
    and "same_day_count st c (e_today env) + count \<le> maxLimit st"
    and "processUserRequest c count referralCode tps env st = (st', created)"
  shows "(int i < count \<and> flag_seen st env c i \<and> (\<forall>k<i. \<not> flag_seen st env c k) \<longrightarrow>
            length created = i
          \<and> created = map (\<lambda>k. unit_wallet tps referralCode (e_units env k)) [0..<i]
          \<and> walletFiles st' c =
               (if i = 0 then walletFiles st c
                else Stored (stored_wallets (walletFiles st c) @ created))
          \<and> usageData st' c = Some \<lparr>u_date = e_today env,
               u_count = same_day_count st c (e_today env) + int i\<rparr>
          \<and> (\<exists>pre d. outbox st' = pre @ [(c, CancelledByAdmin), (c, Processed i), (c, d)]))
       \<and> ((\<forall>k<nat count. \<not> flag_seen st env c k) \<longrightarrow>
            length created = nat count
          \<and> created = map (\<lambda>k. unit_wallet tps referralCode (e_units env k)) [0..<nat count]
          \<and> walletFiles st' c =
               (if nat count = 0 then walletFiles st c
                else Stored (stored_wallets (walletFiles st c) @ created))
          \<and> usageData st' c = Some \<lparr>u_date = e_today env,
               u_count = same_day_count st c (e_today env) + int (nat count)\<rparr>)
       \<and> (\<forall>ue. registered (unit_wallet tps referralCode ue) = handshake_succeeds (e_reg ue)
            \<and> chats (unit_wallet tps referralCode ue)
                = (if handshake_succeeds (e_reg ue) then int (good_turns (e_chat ue)) else 0)
            \<and> address (unit_wallet tps referralCode ue) = fst (e_keys ue)
            \<and> topics (unit_wallet tps referralCode ue) = tps)"
proof -
  let ?st2 = "(reset_day c (e_today env) st)\<lparr>totalWalletRequests := totalWalletRequests st + count\<rparr>"
  let ?r = "\<lparr>u_date = e_today env, u_count = same_day_count st c (e_today env)\<rparr>"
  have us: "usageData ?st2 c = Some ?r" by (simp add: reset_day_usage)
  have fs: "\<And>k. flag_seen ?st2 env c k = flag_seen st env c k"
    by (rule flag_seen_cong) simp
  have wf: "walletFiles ?st2 = walletFiles st" by simp
  note g = processUserRequest_granted [OF assms(2), of referralCode tps]
  show ?thesis
  proof (intro conjI impI allI)
    assume a: "int i < count \<and> flag_seen st env c i \<and> (\<forall>k<i. \<not> flag_seen st env c k)"
    then have a': "int i < count" "flag_seen ?st2 env c i" "\<forall>k<i. \<not> flag_seen ?st2 env c k"
      by (simp_all add: fs)
    from units_loop_cancel_at [OF assms(1) us a', of tps] obtain st3 ws where
      l: "units_loop c count referralCode tps env 0 ?st2 [] = (send c CancelledByAdmin st3, ws, False)"
      and mp: "ws = map (\<lambda>k. unit_wallet tps referralCode (e_units env k)) [0..<i]"
      and len: "length ws = i"
      and u3: "usageData st3 c = Some (?r\<lparr>u_count := u_count ?r + int i\<rparr>)"
      and w3: "walletFiles st3 c =
          (if i = 0 then walletFiles ?st2 c else Stored (stored_wallets (walletFiles ?st2 c) @ ws))"
      by blast
    from assms(3) have res: "st' = send_summary c (length ws) (send c CancelledByAdmin st3)"
      "created = ws"
      unfolding g l by auto
    show "length created = i" using res len by simp
    show "created = map (\<lambda>k. unit_wallet tps referralCode (e_units env k)) [0..<i]"
      using res mp by simp
    show "walletFiles st' c =
               (if i = 0 then walletFiles st c
                else Stored (stored_wallets (walletFiles st c) @ created))"
      unfolding res using w3 by simp
    show "usageData st' c = Some \<lparr>u_date = e_today env,
               u_count = same_day_count st c (e_today env) + int i\<rparr>"
      unfolding res using u3 by simp
    from send_summary_outbox [of c "length ws" "send c CancelledByAdmin st3"] obtain d where
      "outbox st' = (outbox st3 @ [(c, CancelledByAdmin)]) @ [(c, Processed (length ws)), (c, d)]"
      unfolding res by auto
    then show "\<exists>pre d. outbox st' = pre @ [(c, CancelledByAdmin), (c, Processed i), (c, d)]"
      using len by auto
  next
    assume "\<forall>k<nat count. \<not> flag_seen st env c k"
    then have a': "\<forall>k<nat count. \<not> flag_seen ?st2 env c k" by (simp add: fs)
    from units_loop_complete [OF assms(1) us a', of tps] obtain st3 ws where
      l: "units_loop c count referralCode tps env 0 ?st2 [] = (st3, ws, False)"
      and mp: "ws = map (\<lambda>k. unit_wallet tps referralCode (e_units env k)) [0..<nat count]"
      and len: "length ws = nat count"
      and u3: "usageData st3 c = Some (?r\<lparr>u_count := u_count ?r + int (nat count)\<rparr>)"
      and w3: "walletFiles st3 c =
          (if nat count = 0 then walletFiles ?st2 c
           else Stored (stored_wallets (walletFiles ?st2 c) @ ws))"
      by blast
    from assms(3) have res: "st' = send_summary c (length ws) st3" "created = ws"
      unfolding g l by auto
    show "length created = nat count" using res len by simp
    show "created = map (\<lambda>k. unit_wallet tps referralCode (e_units env k)) [0..<nat count]"
      using res mp by simp
    show "walletFiles st' c =
               (if nat count = 0 then walletFiles st c
                else Stored (stored_wallets (walletFiles st c) @ created))"
      unfolding res using w3 by simp
    show "usageData st' c = Some \<lparr>u_date = e_today env,
               u_count = same_day_count st c (e_today env) + int (nat count)\<rparr>"
      unfolding res using u3 by simp
  next
    fix ue
    show "registered (unit_wallet tps referralCode ue) = handshake_succeeds (e_reg ue)"
      "chats (unit_wallet tps referralCode ue)
         = (if handshake_succeeds (e_reg ue) then int (good_turns (e_chat ue)) else 0)"
      "address (unit_wallet tps referralCode ue) = fst (e_keys ue)"
      "topics (unit_wallet tps referralCode ue) = tps"
      by (rule unit_wallet_facts)+
  qed
qed

theorem C4_witness:
  "length ''ABCDEF'' = 6
   \<and> same_day_count (start_bot 1) 7 (e_today env_cancel_mid) + 3 \<le> maxLimit (start_bot 1)
   \<and> flag_seen (start_bot 1) env_cancel_mid 7 1
   \<and> \<not> flag_seen (start_bot 1) env_cancel_mid 7 0
   \<and> snd (processUserRequest 7 3 ''ABCDEF'' [''t1''] env_cancel_mid (start_bot 1))
       = [unit_wallet [''t1''] ''ABCDEF'' unit_ok]
   \<and> handshake_succeeds (e_reg unit_ok)
   \<and> registered (unit_wallet [''t1''] ''ABCDEF'' unit_ok)
   \<and> chats (unit_wallet [''t1''] ''ABCDEF'' unit_ok) = 5
   \<and> \<not> flag_seen (start_bot 1) env_day2 7 2
   \<and> length (snd (processUserRequest 7 3 ''ABCDEF'' [''t1''] env_day2 (start_bot 1))) = 3"
proof -
  have q: "same_day_count (start_bot 1) 7 (e_today env_cancel_mid) + 3 \<le> maxLimit (start_bot 1)"
    "same_day_count (start_bot 1) 7 (e_today env_day2) + 3 \<le> maxLimit (start_bot 1)"
    by (simp_all add: same_day_count_def start_bot_def)
  have f: "flag_seen (start_bot 1) env_cancel_mid 7 1"
    "\<not> flag_seen (start_bot 1) env_cancel_mid 7 0"
    "\<And>k. \<not> flag_seen (start_bot 1) env_day2 7 k"
    by (simp_all add: flag_seen_iff cancelled_def start_bot_def env_cancel_mid_def env_day2_def)
  have l: "length ''ABCDEF'' = 6" by simp
  have h: "handshake_succeeds (e_reg unit_ok)"
    by (simp add: unit_ok_def handshake_succeeds_def env_ok_def lacks_token_def)
  have up: "[0..<5] = [0, 1, 2, 3, 4]" by (simp add: upt_rec)
  have g: "good_turns (e_chat unit_ok) = 5"
    unfolding good_turns_def up by (simp add: unit_ok_def)
  have u: "e_units env_cancel_mid 0 = unit_ok"
    by (simp add: env_cancel_mid_def env_day2_def)
  from C4_cancellation_checkpoint [OF l q(1), of "[''t1'']"
      "fst (processUserRequest 7 3 ''ABCDEF'' [''t1''] env_cancel_mid (start_bot 1))"
      "snd (processUserRequest 7 3 ''ABCDEF'' [''t1''] env_cancel_mid (start_bot 1))" 1]
    C4_cancellation_checkpoint [OF l q(2), of "[''t1'']"
      "fst (processUserRequest 7 3 ''ABCDEF'' [''t1''] env_day2 (start_bot 1))"
      "snd (processUserRequest 7 3 ''ABCDEF'' [''t1''] env_day2 (start_bot 1))" 0]
    q f h g u
  show ?thesis by simp
qed


section \<open>Control Plane and Session State Machine: results\<close>

lemma broadcast_to_frame [simp]:
  "pendingRequests (broadcast_to us text st) = pendingRequests st"
  "jobs (broadcast_to us text st) = jobs st"
  "userState (broadcast_to us text st) = userState st"
  by (induction us arbitrary: st) (simp_all add: send_def)

lemma cancelled_admin_input:
  "cancelled st c \<Longrightarrow> cancelled (admin_input stage a text st) c"
  by (cases stage)
     (auto simp add: cancelled_def set_idle_def send_def split: option.splits)

lemma session_input_pending [simp]:
  "pendingRequests (session_input s a text st) = pendingRequests st"
  by (cases s) (simp_all add: send_def Let_def split: option.splits)

lemma user_message_pending [simp]:
  "pendingRequests (user_message a text st) = pendingRequests st"
  by (simp add: user_message_def handleStart_def send_def Let_def split: option.splits)

lemma cancelled_on_message:
  "cancelled st c \<Longrightarrow> cancelled (on_message a text st) c"
  by (auto simp add: on_message_def cancelled_admin_input split: option.splits)
     (simp_all add: cancelled_def send_def)

lemma cancelled_on_callback:
  "cancelled st c \<Longrightarrow> cancelled (on_callback a action st) c"
  by (simp add: on_callback_def prompt_stage_def cancelled_def send_def)

lemma cancelled_step: "cancelled st c \<Longrightarrow> cancelled (step st ev) c"
  by (cases ev)
     (simp_all add: cancelled_on_message cancelled_on_callback,
      simp add: settle_job_def cancelled_def)

lemma cancelled_run: "cancelled st c \<Longrightarrow> cancelled (run st evs) c"
  unfolding run_def
  by (induction evs arbitrary: st) (simp_all add: cancelled_step)

lemma cancelled_reset_day [simp]: "cancelled (reset_day a today st) c = cancelled st c"
  by (simp add: cancelled_def)

lemma cancelled_processUserRequest:
  assumes "cancelled st c"
  shows "cancelled (fst (processUserRequest a count referralCode tps env st)) c"
proof (cases "same_day_count st a (e_today env) + count \<le> maxLimit st")
  case False
  then have "same_day_count st a (e_today env) + count > maxLimit st" by simp
  from processUserRequest_denied [OF this] assms show ?thesis by simp
next
  case True
  let ?st2 = "(reset_day a (e_today env) st)\<lparr>totalWalletRequests := totalWalletRequests st + count\<rparr>"
  obtain st3 cr th where l: "units_loop a count referralCode tps env 0 ?st2 [] = (st3, cr, th)"
    by (cases "units_loop a count referralCode tps env 0 ?st2 []" rule: prod_cases3)
  have "cancelled ?st2 c" using assms by (simp add: cancelled_def)
  with units_loop_frame [OF l, of c] have "cancelled st3 c" by simp
  then show ?thesis
    unfolding processUserRequest_granted [OF True] l
    by (simp add: cancelled_def)
qed

lemma cancelled_request_produces_nothing:
  assumes "cancelled st c"
  shows "snd (processUserRequest c count referralCode tps env st) = []
       \<and> walletFiles (fst (processUserRequest c count referralCode tps env st)) = walletFiles st"
proof (cases "same_day_count st c (e_today env) + count \<le> maxLimit st")
  case False
  then have "same_day_count st c (e_today env) + count > maxLimit st" by simp
  from processUserRequest_denied [OF this] show ?thesis by simp
next
  case True
  let ?st2 = "(reset_day c (e_today env) st)\<lparr>totalWalletRequests := totalWalletRequests st + count\<rparr>"
  have c2: "cancelled ?st2 c" using assms by (simp add: cancelled_def)
  have "\<exists>st3. units_loop c count referralCode tps env 0 ?st2 [] = (st3, [], False)
        \<and> walletFiles st3 = walletFiles st"
  proof (cases "int 0 < count")
    case False
    then have "units_loop c count referralCode tps env 0 ?st2 [] = (?st2, [], False)"
      by (subst units_loop.simps) simp
    then show ?thesis by simp
  next
    case pos: True
    have "units_loop c count referralCode tps env 0 ?st2 []
       = (send c CancelledByAdmin (admin_cancels (e_cancels_before env 0) ?st2), [], False)"
      using pos unit_step_cancelled [OF disjI1 [OF c2], where env = env and i = 0 and count = count
          and referralCode = referralCode and tps = tps and created = "[]"]
      by (subst units_loop.simps) simp
    then show ?thesis by simp
  qed
  then obtain st3 where l: "units_loop c count referralCode tps env 0 ?st2 [] = (st3, [], False)"
    and w: "walletFiles st3 = walletFiles st" by blast
  show ?thesis
    unfolding processUserRequest_granted [OF True] l using w by simp
qed

lemma admin_cancel_sets_flag:
  assumes "adminId st \<notin> set (blockedUsers st)" and "adminState st (adminId st) = Some Cancel"
    and "parseInt (trim text) = Some target"
  shows "cancelled (on_message (adminId st) text st) target"
proof -
  have "parseInt (trim ''/admin'') = None"
    by (simp add: parseInt_def parse_radix_def digit_of_def is_space_def trim_def Let_def)
  with assms(3) have ne: "text \<noteq> ''/admin''" by auto
  show ?thesis
    using assms ne
    by (simp add: on_message_def admin_pending_def cancelled_def set_idle_def send_def)
qed

lemma cancelled_request_stops_at_first_checkpoint:
  assumes "cancelled st c" and "0 < count"
    and "same_day_count st c (e_today env) + count \<le> maxLimit st"
  shows "\<exists>pre d. outbox (fst (processUserRequest c count referralCode tps env st))
           = pre @ [(c, CancelledByAdmin), (c, Processed 0), (c, d)]"
proof -
  let ?st2 = "(reset_day c (e_today env) st)\<lparr>totalWalletRequests := totalWalletRequests st + count\<rparr>"
  let ?st3 = "admin_cancels (e_cancels_before env 0) ?st2"
  have c2: "cancelled ?st2 c" using assms(1) by (simp add: cancelled_def)
  have l: "units_loop c count referralCode tps env 0 ?st2 []
       = (send c CancelledByAdmin ?st3, [], False)"
    using assms(2) unit_step_cancelled [OF disjI1 [OF c2], where env = env and i = 0
          and count = count and referralCode = referralCode and tps = tps and created = "[]"]
    by (subst units_loop.simps) simp
  from send_summary_outbox [of c 0 "send c CancelledByAdmin ?st3"] obtain d where
    "outbox (send_summary c 0 (send c CancelledByAdmin ?st3))
       = (outbox ?st3 @ [(c, CancelledByAdmin)]) @ [(c, Processed 0), (c, d)]"
    by auto
  then show ?thesis
    unfolding processUserRequest_granted [OF assms(3)] l by auto
qed

text \<open>
  Claim C9. When the admin, in the stage \<open>cancel\<close>, sends the chat id of an actor, the
  cancel flag of that actor is set. No operation clears a flag that is set: not the
  message handler, the callback handler or the settling of a request, and not a run of
  \<open>processUserRequest\<close> for any actor. Hence after any further events every request of
  that actor produces no identity and leaves the wallet files as they are, and when it
  passes the quota gate with a positive count it ends at the check of its first unit,
  with the cancellation notice and the summary for 0 wallets. Only a restart, which
  begins with no flag set, ends this.
\<close>

theorem C9_cancel_flag_never_cleared:
  "(adminId st \<notin> set (blockedUsers st) \<and> adminState st (adminId st) = Some Cancel
      \<and> parseInt (trim text) = Some c \<longrightarrow> cancelled (on_message (adminId st) text st) c)
   \<and> (cancelled st c \<longrightarrow>
         cancelled (step st ev) c
       \<and> cancelled (fst (processUserRequest a n r ts env st)) c
       \<and> cancelled (run st evs) c
       \<and> snd (processUserRequest c count referralCode tps env (run st evs)) = []
       \<and> walletFiles (fst (processUserRequest c count referralCode tps env (run st evs)))
           = walletFiles (run st evs)
       \<and> (0 < count
            \<and> same_day_count (run st evs) c (e_today env) + count \<le> maxLimit (run st evs) \<longrightarrow>
            (\<exists>pre d. outbox (fst (processUserRequest c count referralCode tps env (run st evs)))
                = pre @ [(c, CancelledByAdmin), (c, Processed 0), (c, d)])))
   \<and> \<not> cancelled (start_bot admin) c"
proof (intro conjI impI)
  assume "adminId st \<notin> set (blockedUsers st) \<and> adminState st (adminId st) = Some Cancel
      \<and> parseInt (trim text) = Some c"
  then show "cancelled (on_message (adminId st) text st) c"
    using admin_cancel_sets_flag by blast
next
  assume f: "cancelled st c"
  show "cancelled (step st ev) c" using f by (rule cancelled_step)
  show "cancelled (fst (processUserRequest a n r ts env st)) c"
    using f by (rule cancelled_processUserRequest)
  show r: "cancelled (run st evs) c" using f by (rule cancelled_run)
  show "snd (processUserRequest c count referralCode tps env (run st evs)) = []"
    using cancelled_request_produces_nothing [OF r] by blast
  show "walletFiles (fst (processUserRequest c count referralCode tps env (run st evs)))
           = walletFiles (run st evs)"
    using cancelled_request_produces_nothing [OF r] by blast
  assume "0 < count
            \<and> same_day_count (run st evs) c (e_today env) + count \<le> maxLimit (run st evs)"
  then show "\<exists>pre d. outbox (fst (processUserRequest c count referralCode tps env (run st evs)))
                = pre @ [(c, CancelledByAdmin), (c, Processed 0), (c, d)]"
    using cancelled_request_stops_at_first_checkpoint [OF r] by blast
next
  show "\<not> cancelled (start_bot admin) c"
    by (simp add: cancelled_def start_bot_def)
qed

theorem C9_witness:
  "adminId cancel_stage_bot \<notin> set (blockedUsers cancel_stage_bot)
   \<and> adminState cancel_stage_bot (adminId cancel_stage_bot) = Some Cancel
   \<and> parseInt (trim ''7'') = Some 7
   \<and> cancelled (on_message 1 ''7'' cancel_stage_bot) 7
   \<and> cancelled (run (on_message 1 ''7'' cancel_stage_bot) two_requests) 7
   \<and> snd (processUserRequest 7 2 ''ABCDEF'' [''t1'', ''t2''] env_day2
            (run (on_message 1 ''7'' cancel_stage_bot) two_requests)) = []
   \<and> same_day_count (run (on_message 1 ''7'' cancel_stage_bot) two_requests) 7
        (e_today env_day2) + 2
       \<le> maxLimit (run (on_message 1 ''7'' cancel_stage_bot) two_requests)
   \<and> (\<exists>pre d. outbox (fst (processUserRequest 7 2 ''ABCDEF'' [''t1'', ''t2''] env_day2
                            (run (on_message 1 ''7'' cancel_stage_bot) two_requests)))
         = pre @ [(7, CancelledByAdmin), (7, Processed 0), (7, d)])"
proof -
  have a: "adminId cancel_stage_bot = 1"
    "adminId cancel_stage_bot \<notin> set (blockedUsers cancel_stage_bot)"
    "adminState cancel_stage_bot (adminId cancel_stage_bot) = Some Cancel"
    by (simp_all add: cancel_stage_bot_def start_bot_def)
  have p: "parseInt (trim ''7'') = Some 7"
    by (simp add: parseInt_def parse_radix_def digit_of_def is_space_def trim_def Let_def)
  have q: "usageData (run (on_message 1 ''7'' cancel_stage_bot) two_requests) 7 = None"
    "maxLimit (run (on_message 1 ''7'' cancel_stage_bot) two_requests) = 100"
    by (simp_all add: run_def two_requests_def cancel_stage_bot_def start_bot_def
        on_message_def user_message_def admin_pending_def handleStart_def set_idle_def
        send_def extra_lines_def parseInt_def parse_radix_def digit_of_def is_space_def
        trim_def Let_def)
  have g: "same_day_count (run (on_message 1 ''7'' cancel_stage_bot) two_requests) 7
        (e_today env_day2) + 2
       \<le> maxLimit (run (on_message 1 ''7'' cancel_stage_bot) two_requests)"
    by (simp add: same_day_count_def q)
  from C9_cancel_flag_never_cleared [of cancel_stage_bot "''7''" 7] a p
  have c: "cancelled (on_message 1 ''7'' cancel_stage_bot) 7" by simp
  from C9_cancel_flag_never_cleared [of "on_message 1 ''7'' cancel_stage_bot" "''7''" 7
      "Message 7 ''/start''" 7 2 "''ABCDEF''" "[''t1'', ''t2'']" env_day2 two_requests
      2 "''ABCDEF''" "[''t1'', ''t2'']" 1] c a p g
  show ?thesis by simp
qed

lemma admin_input_jobs [simp]: "jobs (admin_input stage a text st) = jobs st"
  by (cases stage) (simp_all add: set_idle_def send_def split: option.splits)






lemma admin_pending_jobs_upd [simp]:
  "admin_pending (st\<lparr>jobs := js\<rparr>) c = admin_pending st c"
  by (simp add: admin_pending_def)














end
